theory Spec2Isabelle
  imports Complex_Main
begin

section \<open>Errors\<close>

text \<open>
  The failures the notebooks and the selector can end in. \<open>ZeroDivisionError\<close> is
  Python's, raised by \<open>//\<close>; \<open>ShapeError\<close> stands for the error \<open>jnp.reshape\<close>
  raises when the element counts differ; \<open>EmptyArgmax\<close> for \<open>jnp.argmax\<close> of an
  empty array; \<open>InvalidInput\<close> and \<open>InvalidConfig\<close> are the selector's.
\<close>

datatype error = ZeroDivisionError | ShapeError | EmptyArgmax | InvalidInput | InvalidConfig

section \<open>The PBT configuration cells\<close>

text \<open>
  The three arguments of the \<open>PBT(...)\<close> constructor call of the notebooks.
\<close>

record replacement_spec =
  population_size :: int
  num_best_to_replace_from :: int
  num_worse_to_replace :: int

text \<open>Python's \<open>a // b\<close> on integers: floor division, raising on a zero divisor.\<close>

definition floordiv :: "int \<Rightarrow> int \<Rightarrow> error + int" where
  "floordiv a b = (if b = 0 then Inl ZeroDivisionError else Inr (a div b))"

text \<open>
  The cell
  \<^verbatim>\<open>
  population_size = population_size_per_device * num_devices
  pbt = PBT(
      population_size=population_size,
      num_best_to_replace_from=num_best_to_replace_from // num_devices,
      num_worse_to_replace=num_worse_to_replace // num_devices,
  )
  \<close>
  as a function of the hyperparameters of the configuration cell and of the device count.
  The result is the argument triple handed to the constructor.
\<close>

definition pbt_args :: "int \<Rightarrow> int \<Rightarrow> int \<Rightarrow> int \<Rightarrow> error + replacement_spec" where
  "pbt_args population_size_per_device n_best n_worse num_devices =
     (case floordiv n_best num_devices of
        Inl e \<Rightarrow> Inl e
      | Inr kb \<Rightarrow>
          (case floordiv n_worse num_devices of
             Inl e \<Rightarrow> Inl e
           | Inr kw \<Rightarrow>
               Inr \<lparr>population_size = population_size_per_device * num_devices,
                    num_best_to_replace_from = kb,
                    num_worse_to_replace = kw\<rparr>))"

text \<open>
  The SAC notebook: \<open>population_size_per_device = 10\<close>, \<open>num_best_to_replace_from = 20\<close>,
  \<open>num_worse_to_replace = 40\<close>.
\<close>

definition sac_pbt_args :: "int \<Rightarrow> error + replacement_spec" where
  "sac_pbt_args num_devices = pbt_args 10 20 40 num_devices"

text \<open>
  The TD3 notebook: \<open>population_size_per_device = 3\<close>, \<open>num_best_to_replace_from = 1\<close>,
  \<open>num_worse_to_replace = 1\<close>.
\<close>

definition td3_pbt_args :: "int \<Rightarrow> error + replacement_spec" where
  "td3_pbt_args num_devices = pbt_args 3 1 1 num_devices"

text \<open>
  The invariant of the data model: both counts lie between 0 and the population size, and
  together they do not exceed it.
\<close>

definition replacement_invariant :: "replacement_spec \<Rightarrow> bool" where
  "replacement_invariant c \<longleftrightarrow>
     0 \<le> num_best_to_replace_from c \<and> num_best_to_replace_from c \<le> population_size c \<and>
     0 \<le> num_worse_to_replace c \<and> num_worse_to_replace c \<le> population_size c \<and>
     num_best_to_replace_from c + num_worse_to_replace c \<le> population_size c"

text \<open>
  Modelled from the spec: the configuration check of the PBT selector (the library module
  \<open>qdax.baselines.pbt\<close> is imported by the notebooks and is not among the sources).
  The spec's words: \<open>InvalidConfig\<close> for \<open>K_best + K_worse\<close> exceeding
  \<open>population_size\<close>, or negative counts.
\<close>

definition check_config :: "replacement_spec \<Rightarrow> error option" where
  "check_config c =
     (if num_best_to_replace_from c < 0 \<or> num_worse_to_replace c < 0 \<or>
         num_best_to_replace_from c + num_worse_to_replace c > population_size c
      then Some InvalidConfig else None)"

section \<open>The outer training loop of the PBT notebooks\<close>

text \<open>
  The loop cell of the TD3 and SAC notebooks (the two cells are the same text):
  \<^verbatim>\<open>
  for i in tqdm(range(num_loops), total=num_loops):
      (training_states, env_states, replay_buffers), metrics = train_fn(
          training_states, env_states, replay_buffers)
      population_returns, _ = eval_policy(training_states, eval_env_first_states)
      population_returns_flatten = jnp.reshape(population_returns, (population_size,))
      if i % print_freq == 0:
          print(...)
      if i < (num_loops-1):
          keys, training_states, replay_buffers = select_fn(
              keys, population_returns, training_states, replay_buffers)
  \<close>
  The names the cell reads and rebinds are the fields of the state; \<open>train_fn\<close>,
  \<open>eval_policy\<close> and \<open>select_fn\<close> are library functions and are parameters of the
  model. The field \<open>trace\<close> is the log of the calls made, in order; an \<open>Eval\<close> entry keeps
  the environment states the evaluation was started from. \<open>tqdm\<close> yields the elements of
  the range unchanged. \<open>population_returns_flatten\<close> is a reshaped copy that only the
  \<open>print\<close> call reads; it is not a field. \<open>i % print_freq\<close> raises for \<open>print_freq = 0\<close>.
\<close>

datatype 'e event = Train int | Eval int 'e | Print int | Select int

record ('k, 's, 'e, 'b, 'r) loop_state =
  keys :: 'k
  training_states :: 's
  env_states :: 'e
  replay_buffers :: 'b
  population_returns :: 'r
  eval_env_first_states :: 'e
  trace :: "'e event list"

text \<open>Python's \<open>range(n)\<close> for an integer \<open>n\<close>: empty when \<open>n \<le> 0\<close>.\<close>

definition range_py :: "int \<Rightarrow> int list" where
  "range_py n = map int [0..<nat n]"

definition loop_body ::
  "int \<Rightarrow> int \<Rightarrow> ('s \<Rightarrow> 'e \<Rightarrow> 'b \<Rightarrow> ('s \<times> 'e \<times> 'b) \<times> 'm) \<Rightarrow> ('s \<Rightarrow> 'e \<Rightarrow> 'r \<times> 'x) \<Rightarrow>
   ('k \<Rightarrow> 'r \<Rightarrow> 's \<Rightarrow> 'b \<Rightarrow> 'k \<times> 's \<times> 'b) \<Rightarrow> int \<Rightarrow>
   ('k, 's, 'e, 'b, 'r) loop_state \<Rightarrow> error + ('k, 's, 'e, 'b, 'r) loop_state" where
  "loop_body num_loops print_freq train_fn eval_policy select_fn i st =
     (case train_fn (training_states st) (env_states st) (replay_buffers st) of
        ((ts, es, rb), metrics) \<Rightarrow>
          let st1 = st\<lparr>training_states := ts, env_states := es, replay_buffers := rb,
                       trace := trace st @ [Train i]\<rparr>;
              st2 = st1\<lparr>population_returns :=
                          fst (eval_policy (training_states st1) (eval_env_first_states st1)),
                        trace := trace st1 @ [Eval i (eval_env_first_states st1)]\<rparr>
          in if print_freq = 0 then Inl ZeroDivisionError
             else
               let st3 = (if i mod print_freq = 0
                          then st2\<lparr>trace := trace st2 @ [Print i]\<rparr> else st2)
               in if i < num_loops - 1
                  then (case select_fn (keys st3) (population_returns st3)
                               (training_states st3) (replay_buffers st3) of
                          (k, ts', rb') \<Rightarrow>
                            Inr (st3\<lparr>keys := k, training_states := ts', replay_buffers := rb',
                                      trace := trace st3 @ [Select i]\<rparr>))
                  else Inr st3)"

fun loop_over ::
  "(int \<Rightarrow> 'a \<Rightarrow> error + 'a) \<Rightarrow> int list \<Rightarrow> 'a \<Rightarrow> error + 'a" where
  "loop_over body [] st = Inr st"
| "loop_over body (i # is) st =
     (case body i st of Inl e \<Rightarrow> Inl e | Inr st' \<Rightarrow> loop_over body is st')"

definition pbt_loop ::
  "int \<Rightarrow> int \<Rightarrow> ('s \<Rightarrow> 'e \<Rightarrow> 'b \<Rightarrow> ('s \<times> 'e \<times> 'b) \<times> 'm) \<Rightarrow> ('s \<Rightarrow> 'e \<Rightarrow> 'r \<times> 'x) \<Rightarrow>
   ('k \<Rightarrow> 'r \<Rightarrow> 's \<Rightarrow> 'b \<Rightarrow> 'k \<times> 's \<times> 'b) \<Rightarrow>
   ('k, 's, 'e, 'b, 'r) loop_state \<Rightarrow> error + ('k, 's, 'e, 'b, 'r) loop_state" where
  "pbt_loop num_loops print_freq train_fn eval_policy select_fn st =
     loop_over (loop_body num_loops print_freq train_fn eval_policy select_fn)
       (range_py num_loops) st"

text \<open>
  The state the loop has reached when its first \<open>n\<close> iterations are done: the loop run
  over \<open>range(n)\<close> with the same \<open>num_loops\<close> in its guard. The whole loop is
  \<open>state_after\<close> for \<open>n = num_loops\<close>.
\<close>

definition state_after ::
  "int \<Rightarrow> int \<Rightarrow> ('s \<Rightarrow> 'e \<Rightarrow> 'b \<Rightarrow> ('s \<times> 'e \<times> 'b) \<times> 'm) \<Rightarrow> ('s \<Rightarrow> 'e \<Rightarrow> 'r \<times> 'x) \<Rightarrow>
   ('k \<Rightarrow> 'r \<Rightarrow> 's \<Rightarrow> 'b \<Rightarrow> 'k \<times> 's \<times> 'b) \<Rightarrow> int \<Rightarrow>
   ('k, 's, 'e, 'b, 'r) loop_state \<Rightarrow> error + ('k, 's, 'e, 'b, 'r) loop_state" where
  "state_after num_loops print_freq train_fn eval_policy select_fn n st =
     loop_over (loop_body num_loops print_freq train_fn eval_policy select_fn)
       (range_py n) st"

text \<open>The log entries one iteration appends, as the cell's text orders them.\<close>

definition iteration_events :: "int \<Rightarrow> int \<Rightarrow> 'e \<Rightarrow> int \<Rightarrow> 'e event list" where
  "iteration_events num_loops print_freq e i =
     [Train i, Eval i e] @ (if i mod print_freq = 0 then [Print i] else []) @
     (if i < num_loops - 1 then [Select i] else [])"

fun is_select :: "'e event \<Rightarrow> bool" where
  "is_select (Select i) = True"
| "is_select _ = False"

fun is_train :: "'e event \<Rightarrow> bool" where
  "is_train (Train i) = True"
| "is_train _ = False"

section \<open>The CMA-ES optimization loop\<close>

text \<open>
  The cell of the CMA-ES notebook:
  \<^verbatim>\<open>
  means = [state.mean]
  covs = [(state.sigma**2) * state.cov_matrix]
  iteration_count = 0
  for _ in range(num_iterations):
      iteration_count += 1
      samples, random_key = cmaes.sample(state, random_key)
      state = cmaes.update(state, samples)
      stop_condition = cmaes.stop_condition(state)
      if stop_condition:
          break
      means.append(state.mean)
      covs.append((state.sigma**2) * state.cov_matrix)
  \<close>
  \<open>cmaes.sample\<close>, \<open>cmaes.update\<close> and \<open>cmaes.stop_condition\<close> are library functions
  and are parameters, as are the two projections \<open>mean_of\<close> (for \<open>state.mean\<close>) and
  \<open>cov_of\<close> (for \<open>(state.sigma**2) * state.cov_matrix\<close>). The name \<open>samples\<close> is unbound
  before the first iteration.
\<close>

record ('st, 'k, 'sm, 'mn, 'cv) cmaes_run =
  state :: 'st
  random_key :: 'k
  samples :: "'sm option"
  means :: "'mn list"
  covs :: "'cv list"
  iteration_count :: int

text \<open>The first argument after the library functions is the number of iterations left.\<close>

fun cmaes_loop ::
  "('st \<Rightarrow> 'k \<Rightarrow> 'sm \<times> 'k) \<Rightarrow> ('st \<Rightarrow> 'sm \<Rightarrow> 'st) \<Rightarrow> ('st \<Rightarrow> bool) \<Rightarrow>
   ('st \<Rightarrow> 'mn) \<Rightarrow> ('st \<Rightarrow> 'cv) \<Rightarrow> nat \<Rightarrow>
   ('st, 'k, 'sm, 'mn, 'cv) cmaes_run \<Rightarrow> ('st, 'k, 'sm, 'mn, 'cv) cmaes_run" where
  "cmaes_loop sample update stop_condition mean_of cov_of 0 r = r"
| "cmaes_loop sample update stop_condition mean_of cov_of (Suc n) r =
     (let r1 = r\<lparr>iteration_count := iteration_count r + 1\<rparr>
      in case sample (state r1) (random_key r1) of
           (smp, key) \<Rightarrow>
             let r2 = r1\<lparr>samples := Some smp, random_key := key\<rparr>;
                 r3 = r2\<lparr>state := update (state r2) smp\<rparr>
             in if stop_condition (state r3) then r3
                else cmaes_loop sample update stop_condition mean_of cov_of n
                       (r3\<lparr>means := means r3 @ [mean_of (state r3)],
                           covs := covs r3 @ [cov_of (state r3)]\<rparr>))"

definition cmaes_cell ::
  "('st \<Rightarrow> 'k \<Rightarrow> 'sm \<times> 'k) \<Rightarrow> ('st \<Rightarrow> 'sm \<Rightarrow> 'st) \<Rightarrow> ('st \<Rightarrow> bool) \<Rightarrow>
   ('st \<Rightarrow> 'mn) \<Rightarrow> ('st \<Rightarrow> 'cv) \<Rightarrow> int \<Rightarrow> 'st \<Rightarrow> 'k \<Rightarrow>
   ('st, 'k, 'sm, 'mn, 'cv) cmaes_run" where
  "cmaes_cell sample update stop_condition mean_of cov_of num_iterations st key =
     cmaes_loop sample update stop_condition mean_of cov_of (nat num_iterations)
       \<lparr>state = st, random_key = key, samples = None, means = [mean_of st],
        covs = [cov_of st], iteration_count = 0\<rparr>"

text \<open>
  The optimizer states the loop passes through when it is never stopped: the state after
  \<open>j\<close> rounds of \<open>sample\<close> and \<open>update\<close>, with the key it then holds.
\<close>

fun cmaes_after ::
  "('st \<Rightarrow> 'k \<Rightarrow> 'sm \<times> 'k) \<Rightarrow> ('st \<Rightarrow> 'sm \<Rightarrow> 'st) \<Rightarrow> nat \<Rightarrow> 'st \<times> 'k \<Rightarrow> 'st \<times> 'k" where
  "cmaes_after sample update 0 sk = sk"
| "cmaes_after sample update (Suc j) sk =
     (case sample (fst sk) (snd sk) of
        (smp, key) \<Rightarrow> cmaes_after sample update j (update (fst sk) smp, key))"

section \<open>The scan loops of the MOME, NSGA2 and SPEA2 notebooks\<close>

text \<open>
  The cells
  \<^verbatim>\<open>
  (repertoire, emitter_state, random_key), metrics = jax.lax.scan(
      mome.scan_update, (repertoire, emitter_state, random_key), (), length=num_iterations)
  \<close>
  call \<open>jax.lax.scan\<close> with the empty tuple as the scanned input, so that every call of the
  body receives \<open>()\<close>. The function below follows the reference semantics JAX documents
  for \<open>scan\<close>: the carry is threaded through \<open>length\<close> calls of the body and the second
  components are stacked in order. The length is a natural number here; what \<open>scan\<close> does
  with a negative length is not modelled, and the properties below are stated for
  \<open>num_iterations \<ge> 0\<close> (the cells pass 1000).
\<close>

fun scan :: "('c \<Rightarrow> unit \<Rightarrow> 'c \<times> 'y) \<Rightarrow> 'c \<Rightarrow> nat \<Rightarrow> 'c \<times> 'y list" where
  "scan f carry 0 = (carry, [])"
| "scan f carry (Suc n) =
     (case f carry () of
        (carry', y) \<Rightarrow> (case scan f carry' n of (final, ys) \<Rightarrow> (final, y # ys)))"

definition scan_cell :: "('c \<Rightarrow> unit \<Rightarrow> 'c \<times> 'y) \<Rightarrow> 'c \<Rightarrow> int \<Rightarrow> 'c \<times> 'y list" where
  "scan_cell scan_update init num_iterations = scan scan_update init (nat num_iterations)"

section \<open>Unsharding\<close>

text \<open>
  \<^verbatim>\<open>
  @jax.jit
  def unshard_fn(sharded_tree):
      tree = jax.tree_map(lambda x: jax.device_put(x, "cpu"), sharded_tree)
      tree = jax.tree_map(
          lambda x: jnp.reshape(x, (population_size,) + x.shape[2:]), tree)
      return tree
  \<close>
  A leaf with shape \<open>(d0, d1) + rest\<close> is a list of \<open>d0\<close> rows of \<open>d1\<close> entries, an entry
  being the sub-array of shape \<open>rest\<close>. \<open>jnp.reshape\<close> keeps the row-major order of the
  elements, so reshaping to \<open>(population_size,) + rest\<close> is the concatenation of the rows,
  and it raises when \<open>d0 * d1\<close> is not \<open>population_size\<close>. \<open>jax.device_put\<close> does not change
  values.
\<close>

datatype 'a pytree = Leaf 'a | Node "'a pytree list"

fun leaves :: "'a pytree \<Rightarrow> 'a list" where
  "leaves (Leaf x) = [x]"
| "leaves (Node ts) = concat (map leaves ts)"

definition reshape_ok :: "int \<Rightarrow> 'a list list \<Rightarrow> bool" where
  "reshape_ok pop_size x \<longleftrightarrow> int (length (concat x)) = pop_size"

text \<open>
  \<open>pop_size\<close> is the value of the global name \<open>population_size\<close> the function reads.
\<close>

definition unshard_fn :: "int \<Rightarrow> 'a list list pytree \<Rightarrow> error + 'a list pytree" where
  "unshard_fn pop_size sharded_tree =
     (if list_all (reshape_ok pop_size) (leaves sharded_tree)
      then Inr (map_pytree concat sharded_tree) else Inl ShapeError)"

text \<open>
  A leaf has the leading dimensions \<open>(num_devices, population_size_per_device)\<close>.
\<close>

definition sharded :: "nat \<Rightarrow> nat \<Rightarrow> 'a list list \<Rightarrow> bool" where
  "sharded num_devices population_size_per_device x \<longleftrightarrow>
     length x = num_devices \<and> list_all (\<lambda>row. length row = population_size_per_device) x"

text \<open>
  \<open>jnp.argmax\<close> without an axis works on the flattened array and returns the first index of
  the maximum; it raises on an empty array.
\<close>

fun first_index :: "('a \<Rightarrow> bool) \<Rightarrow> 'a list \<Rightarrow> nat" where
  "first_index P [] = 0"
| "first_index P (x # xs) = (if P x then 0 else Suc (first_index P xs))"

definition argmax :: "('a::linorder) list \<Rightarrow> error + nat" where
  "argmax xs =
     (case xs of
        [] \<Rightarrow> Inl EmptyArgmax
      | x # ys \<Rightarrow> Inr (first_index (\<lambda>v. v = fold max ys x) xs))"

text \<open>
  The cell of the SAC notebook that picks the best member:
  \<^verbatim>\<open>
  training_states = unshard_fn(training_states)
  best_idx = jnp.argmax(population_returns)
  best_training_state = jax.tree_map(lambda x: x[best_idx], training_states)
  \<close>
  where \<open>population_returns\<close> is the sharded array of the last evaluation. Indexing a leaf
  out of range does not raise under JAX (the index is clamped), so a leaf is read at
  \<open>min best_idx (length x - 1)\<close>.
\<close>

definition best_training_state ::
  "int \<Rightarrow> 'a list list pytree \<Rightarrow> ('r::linorder) list list \<Rightarrow> error + 'a pytree" where
  "best_training_state pop_size train_states pop_returns =
     (case unshard_fn pop_size train_states of
        Inl e \<Rightarrow> Inl e
      | Inr tree \<Rightarrow>
          (case argmax (concat pop_returns) of
             Inl e \<Rightarrow> Inl e
           | Inr best_idx \<Rightarrow>
               Inr (map_pytree (\<lambda>x. x ! min best_idx (length x - 1)) tree)))"

section \<open>The PBT selector\<close>

text \<open>
  The notebooks call the selector (\<open>pbt.update_states_and_buffer_pmap\<close>) and do not
  define it. The definitions of this section follow section 4.1 of the specification,
  step by step.
\<close>

text \<open>
  Modelled from the spec: a return value of the evaluator, which is a finite real number
  or NaN (the selector's input check is about NaN; the evaluator is a library function).
\<close>

datatype score = NaN | Val real

text \<open>
  Modelled from the spec: the real number a return value stands for. The input check
  rejects NaN before any value is read, so the value given to NaN is never used.
\<close>

fun value_of :: "score \<Rightarrow> real" where
  "value_of (Val r) = r"
| "value_of NaN = 0"

text \<open>
  Modelled from the spec: the input check of \<open>select_and_replace\<close>, missing from the
  sources with the selector. The spec's words: fails with \<open>InvalidInput\<close> if the length
  does not match \<open>population_size\<close>, or if any value is NaN; the population is a sequence of
  \<open>population_size\<close> members.
\<close>

definition valid_input :: "score list \<Rightarrow> 'm list \<Rightarrow> replacement_spec \<Rightarrow> bool" where
  "valid_input returns population spec \<longleftrightarrow>
     int (length returns) = population_size spec \<and>
     int (length population) = population_size spec \<and>
     NaN \<notin> set returns"

text \<open>
  Modelled from the spec: step 1 of the selector, missing from the sources. The spec's
  words: rank members by returns descending; tie-break: stable by original index (lower
  index wins ties). The indices \<open>0, ..., n - 1\<close> are sorted stably by the negated return.
\<close>

definition rank :: "real list \<Rightarrow> nat list" where
  "rank rs = sort_key (\<lambda>i. - (rs ! i)) [0..<length rs]"

text \<open>
  Modelled from the spec: step 2 of the selector, missing from the sources. The spec's
  words: \<open>best_indices\<close> = top \<open>K_best\<close> indices by rank; \<open>worse_indices\<close> = bottom
  \<open>K_worse\<close> indices by the same ranking.
\<close>

definition best_indices :: "real list \<Rightarrow> nat \<Rightarrow> nat list" where
  "best_indices rs k_best = take k_best (rank rs)"

text \<open>
  Modelled from the spec: the bottom \<open>K_worse\<close> indices of the same ranking (step 2).
\<close>

definition worse_indices :: "real list \<Rightarrow> nat \<Rightarrow> nat list" where
  "worse_indices rs k_worse = drop (length rs - k_worse) (rank rs)"

text \<open>
  Modelled from the spec: step 3 of the selector, missing from the sources. The spec's
  words: a replacement mapping from each worse index to a source index drawn from
  \<open>best_indices\<close> using the RNG state, independently per worse index, with replacement.
  The RNG is opaque: \<open>split\<close> derives two states from one and \<open>choice g n\<close> is the number the
  state \<open>g\<close> yields for \<open>n\<close> candidates, reduced modulo \<open>n\<close> so that the drawn source is a
  member of \<open>best_indices\<close>. Each worse index gets its own state by splitting; the second
  half of it is kept for the perturbation of step 5. The spec does not say what is drawn
  when there is no best index (\<open>K_best = 0\<close>): the mapping then has no entry for the worse
  index.
\<close>

definition draw :: "('g \<Rightarrow> nat \<Rightarrow> nat) \<Rightarrow> 'g \<Rightarrow> nat list \<Rightarrow> nat option" where
  "draw choice g bs =
     (if bs = [] then None else Some (bs ! (choice g (length bs) mod length bs)))"

text \<open>
  Modelled from the spec: the replacement mapping of step 3, one entry (worse index,
  source index, state kept for the perturbation) per worse index, in ranking order.
\<close>

fun build_mapping ::
  "('g \<Rightarrow> 'g \<times> 'g) \<Rightarrow> ('g \<Rightarrow> nat \<Rightarrow> nat) \<Rightarrow> 'g \<Rightarrow> nat list \<Rightarrow> nat list \<Rightarrow>
   (nat \<times> nat \<times> 'g) list" where
  "build_mapping split choice g bs [] = []"
| "build_mapping split choice g bs (w # ws) =
     (case split g of
        (g', k) \<Rightarrow>
          (case split k of
             (k1, k2) \<Rightarrow>
               (case draw choice k1 bs of None \<Rightarrow> [] | Some src \<Rightarrow> [(w, src, k2)]) @
               build_mapping split choice g' bs ws))"

text \<open>
  Modelled from the spec: steps 4 and 5 of the selector, missing from the sources. The
  spec's words: for each (worse index, source index) pair, overwrite the worse member's
  entire state with a copy of the source member's complete state; optionally
  (\<open>perturb_hyperparameters\<close>) perturb the copied hyperparameters of each newly replaced
  member with freshly split randomness. A member is an opaque value, and \<open>perturb\<close> is the
  library's perturbation. The source is read from the population the call received.
\<close>

fun replace_member ::
  "('g \<Rightarrow> 'm \<Rightarrow> 'm) \<Rightarrow> bool \<Rightarrow> 'm list \<Rightarrow> nat \<times> nat \<times> 'g \<Rightarrow> 'm list \<Rightarrow> 'm list" where
  "replace_member perturb perturb_hyperparameters population (w, src, k) acc =
     acc[w := (if perturb_hyperparameters then perturb k (population ! src)
               else population ! src)]"

text \<open>
  Modelled from the spec: the contract
  \<open>select_and_replace(rng_state, returns, population, spec) -> (new_rng_state, new_population)\<close>
  of section 4.1, missing from the sources. The input is checked first, then the
  configuration (\<open>check_config\<close>); then steps 1 to 7 run. The returned RNG state is the first
  half of the split of the input state (step 7), the second half feeds the draws.
\<close>

definition select_and_replace ::
  "('g \<Rightarrow> 'g \<times> 'g) \<Rightarrow> ('g \<Rightarrow> nat \<Rightarrow> nat) \<Rightarrow> ('g \<Rightarrow> 'm \<Rightarrow> 'm) \<Rightarrow> bool \<Rightarrow>
   'g \<Rightarrow> score list \<Rightarrow> 'm list \<Rightarrow> replacement_spec \<Rightarrow> error + 'g \<times> 'm list" where
  "select_and_replace split choice perturb perturb_hyperparameters
     rng_state returns population spec =
     (if \<not> valid_input returns population spec then Inl InvalidInput
      else
        (case check_config spec of
           Some e \<Rightarrow> Inl e
         | None \<Rightarrow>
             (let rs = map value_of returns;
                  bs = best_indices rs (nat (num_best_to_replace_from spec));
                  ws = worse_indices rs (nat (num_worse_to_replace spec))
              in case split rng_state of
                   (new_rng_state, k) \<Rightarrow>
                     Inr (new_rng_state,
                          fold (replace_member perturb perturb_hyperparameters population)
                            (build_mapping split choice k bs ws) population))))"

text \<open>
  Modelled from the spec: the order of step 1 between two members, by index. A higher
  return comes first, and among equal returns the lower index comes first.
\<close>

definition ranks_before :: "real list \<Rightarrow> nat \<Rightarrow> nat \<Rightarrow> bool" where
  "ranks_before rs i j \<longleftrightarrow> rs ! i > rs ! j \<or> (rs ! i = rs ! j \<and> i < j)"

text \<open>
  Modelled from the spec: the outcomes that steps 1 to 7 of section 4.1 allow for one call
  of the selector, which is missing from the sources. Step 1 is taken as a requirement
  on the ranking and not as a way to compute it: a ranking is any arrangement of all
  indices in which a member with a higher return comes before one with a lower return
  and, among equal returns, the lower index comes first. The checks and the steps 2 to 7
  are those of \<open>select_and_replace\<close>, run on such a ranking.
\<close>

definition is_ranking :: "real list \<Rightarrow> nat list \<Rightarrow> bool" where
  "is_ranking rs r \<longleftrightarrow>
     distinct r \<and> set r = {0..<length rs} \<and> sorted_wrt (ranks_before rs) r"

text \<open>
  Modelled from the spec: the outcomes of one call, an error of the checks or the result
  of steps 2 to 7 on a ranking.
\<close>

inductive selection_outcome ::
  "('g \<Rightarrow> 'g \<times> 'g) \<Rightarrow> ('g \<Rightarrow> nat \<Rightarrow> nat) \<Rightarrow> ('g \<Rightarrow> 'm \<Rightarrow> 'm) \<Rightarrow> bool \<Rightarrow>
   'g \<Rightarrow> score list \<Rightarrow> 'm list \<Rightarrow> replacement_spec \<Rightarrow> error + 'g \<times> 'm list \<Rightarrow> bool"
  for split choice perturb perturb_hyperparameters rng_state returns population spec
where
  rejects_input:
    "\<not> valid_input returns population spec \<Longrightarrow>
     selection_outcome split choice perturb perturb_hyperparameters rng_state returns
       population spec (Inl InvalidInput)"
| rejects_config:
    "valid_input returns population spec \<Longrightarrow> check_config spec = Some e \<Longrightarrow>
     selection_outcome split choice perturb perturb_hyperparameters rng_state returns
       population spec (Inl e)"
| selects:
    "valid_input returns population spec \<Longrightarrow> check_config spec = None \<Longrightarrow>
     is_ranking (map value_of returns) r \<Longrightarrow> split rng_state = (new_rng_state, k) \<Longrightarrow>
     selection_outcome split choice perturb perturb_hyperparameters rng_state returns
       population spec
       (Inr (new_rng_state,
             fold (replace_member perturb perturb_hyperparameters population)
               (build_mapping split choice k
                  (take (nat (num_best_to_replace_from spec)) r)
                  (drop (length returns - nat (num_worse_to_replace spec)) r))
               population))"

section \<open>Properties of the configuration cells\<close>

lemma floordiv_lower:
  fixes a d :: int
  assumes "0 < d"
  shows "(a div d) * d \<le> a"
proof -
  have e: "a = (a div d) * d + a mod d" by simp
  have "0 \<le> a mod d" using assms by simp
  with e show ?thesis by linarith
qed

lemma floordiv_upper:
  fixes a d :: int
  assumes "0 < d"
  shows "a < (a div d + 1) * d"
proof -
  have e: "a = (a div d) * d + a mod d" by simp
  have m: "a mod d < d" using assms by simp
  have "(a div d + 1) * d = (a div d) * d + d" by (simp add: algebra_simps)
  with e m show ?thesis by linarith
qed

lemma pbt_args_nonzero:
  "num_devices \<noteq> 0 \<Longrightarrow>
   pbt_args p nb nw num_devices =
     Inr \<lparr>population_size = p * num_devices,
          num_best_to_replace_from = nb div num_devices,
          num_worse_to_replace = nw div num_devices\<rparr>"
  by (simp add: pbt_args_def floordiv_def)

lemma div_le_numerator:
  fixes a d :: int
  assumes "0 \<le> a" "0 < d"
  shows "0 \<le> a div d" and "a div d \<le> a"
proof -
  show "0 \<le> a div d" using assms by (simp add: pos_imp_zdiv_nonneg_iff)
  have "a div d \<le> a div 1" using assms by (intro zdiv_mono2) auto
  then show "a div d \<le> a" by simp
qed

lemma sac_counts_fit:
  fixes nd :: int
  assumes "3 \<le> nd"
  shows "20 div nd + 40 div nd \<le> 10 * nd"
proof -
  have a: "20 div nd \<le> 20 div (3::int)" using assms by (intro zdiv_mono2) auto
  have b: "40 div nd \<le> 40 div (3::int)" using assms by (intro zdiv_mono2) auto
  show ?thesis using a b assms by simp
qed

lemma sac_counts_small:
  fixes nd :: int
  assumes "0 < nd" "nd < 3"
  shows "20 div nd + 40 div nd > 10 * nd"
proof -
  have "nd = 1 \<or> nd = 2" using assms by auto
  then show ?thesis by auto
qed

text \<open>
  Claim C4. In both PBT notebooks the replacement counts handed to the selector are the
  global \<open>num_best_to_replace_from\<close> and \<open>num_worse_to_replace\<close> floor-divided by the
  number of devices: for every positive device count the cell builds its configuration
  (it does not raise), and each count \<open>q\<close> is the floor quotient of its global value \<open>a\<close>,
  that is \<open>q * num_devices \<le> a < (q + 1) * num_devices\<close>, whether or not the device count
  divides \<open>a\<close>.
\<close>

theorem pbt_counts_are_floor_quotients:
  assumes "0 < num_devices"
  shows "(\<exists>c. sac_pbt_args num_devices = Inr c \<and>
            population_size c = 10 * num_devices \<and>
            num_best_to_replace_from c = 20 div num_devices \<and>
            num_worse_to_replace c = 40 div num_devices \<and>
            num_best_to_replace_from c * num_devices \<le> 20 \<and>
            20 < (num_best_to_replace_from c + 1) * num_devices \<and>
            num_worse_to_replace c * num_devices \<le> 40 \<and>
            40 < (num_worse_to_replace c + 1) * num_devices) \<and>
         (\<exists>c. td3_pbt_args num_devices = Inr c \<and>
            population_size c = 3 * num_devices \<and>
            num_best_to_replace_from c = 1 div num_devices \<and>
            num_worse_to_replace c = 1 div num_devices \<and>
            num_best_to_replace_from c * num_devices \<le> 1 \<and>
            1 < (num_best_to_replace_from c + 1) * num_devices \<and>
            num_worse_to_replace c * num_devices \<le> 1 \<and>
            1 < (num_worse_to_replace c + 1) * num_devices)"
proof -
  have nz: "num_devices \<noteq> 0" using assms by simp
  show ?thesis
    unfolding sac_pbt_args_def td3_pbt_args_def pbt_args_nonzero [OF nz]
    using floordiv_lower [OF assms, of 20] floordiv_upper [OF assms, of 20]
      floordiv_lower [OF assms, of 40] floordiv_upper [OF assms, of 40]
      floordiv_lower [OF assms, of 1] floordiv_upper [OF assms, of 1]
    by simp
qed

text \<open>
  With three devices, which divide none of 20, 40 and 1, the SAC cell passes 6 and 13 and
  the TD3 cell passes 0 and 0.
\<close>

theorem pbt_counts_are_floor_quotients_witness:
  "(0::int) < 3 \<and>
   sac_pbt_args 3 = Inr \<lparr>population_size = 30, num_best_to_replace_from = 6,
                          num_worse_to_replace = 13\<rparr> \<and>
   td3_pbt_args 3 = Inr \<lparr>population_size = 9, num_best_to_replace_from = 0,
                          num_worse_to_replace = 0\<rparr> \<and>
   \<not> (3::int) dvd 20 \<and> \<not> (3::int) dvd 40 \<and> \<not> (3::int) dvd 1"
proof -
  have h: "(0::int) < 3" by simp
  from pbt_counts_are_floor_quotients [OF h]
  obtain c d where c: "sac_pbt_args 3 = Inr c" "population_size c = 10 * 3"
      "num_best_to_replace_from c = 20 div 3" "num_worse_to_replace c = 40 div 3"
    and d: "td3_pbt_args 3 = Inr d" "population_size d = 3 * 3"
      "num_best_to_replace_from d = 1 div 3" "num_worse_to_replace d = 1 div 3"
    by blast
  have "c = \<lparr>population_size = 30, num_best_to_replace_from = 6, num_worse_to_replace = 13\<rparr>"
    using c(2,3,4) by simp
  moreover have "d = \<lparr>population_size = 9, num_best_to_replace_from = 0, num_worse_to_replace = 0\<rparr>"
    using d(2,3,4) by simp
  ultimately show ?thesis using c(1) d(1) by simp
qed

text \<open>
  Claim C1 as stated fails: on one device the SAC notebook passes \<open>population_size = 10\<close>
  with the counts 20 and 40, which breaks the invariant.
\<close>

theorem sac_config_breaks_invariant_counterexample:
  "sac_pbt_args 1 = Inr \<lparr>population_size = 10, num_best_to_replace_from = 20,
                          num_worse_to_replace = 40\<rparr> \<and>
   \<not> replacement_invariant \<lparr>population_size = 10, num_best_to_replace_from = 20,
                            num_worse_to_replace = 40\<rparr>"
  by (simp add: sac_pbt_args_def pbt_args_def floordiv_def replacement_invariant_def)

text \<open>
  Claim C1, amended. For every positive device count, the configuration of the SAC
  notebook satisfies the invariant exactly when there are at least three devices, and
  with one or two devices it is an \<open>InvalidConfig\<close>; the configuration of the TD3 notebook
  satisfies the invariant for every positive device count and passes the configuration
  check; and every configuration with \<open>K_best + K_worse > population_size\<close> is an
  \<open>InvalidConfig\<close>.
\<close>

theorem notebook_configs_and_invariant:
  assumes "0 < num_devices"
  shows "(\<exists>c. sac_pbt_args num_devices = Inr c \<and>
            (replacement_invariant c \<longleftrightarrow> 3 \<le> num_devices) \<and>
            (check_config c = Some InvalidConfig \<longleftrightarrow> num_devices < 3)) \<and>
         (\<exists>c. td3_pbt_args num_devices = Inr c \<and> replacement_invariant c \<and>
            check_config c = None) \<and>
         (\<forall>c. num_best_to_replace_from c + num_worse_to_replace c > population_size c \<longrightarrow>
            check_config c = Some InvalidConfig)"
proof -
  have nz: "num_devices \<noteq> 0" using assms by simp
  have b20: "0 \<le> 20 div num_devices" "20 div num_devices \<le> 20"
    using div_le_numerator [of 20 num_devices] assms by simp_all
  have b40: "0 \<le> 40 div num_devices" "40 div num_devices \<le> 40"
    using div_le_numerator [of 40 num_devices] assms by simp_all
  have b1: "0 \<le> 1 div num_devices" "1 div num_devices \<le> 1"
    using div_le_numerator [of 1 num_devices] assms by simp_all
  have sac: "20 div num_devices + 40 div num_devices \<le> 10 * num_devices \<longleftrightarrow> 3 \<le> num_devices"
    using sac_counts_fit [of num_devices] sac_counts_small [of num_devices] assms
    by (cases "3 \<le> num_devices") auto
  have "\<exists>c. sac_pbt_args num_devices = Inr c \<and>
            (replacement_invariant c \<longleftrightarrow> 3 \<le> num_devices) \<and>
            (check_config c = Some InvalidConfig \<longleftrightarrow> num_devices < 3)"
    unfolding sac_pbt_args_def pbt_args_nonzero [OF nz]
    using b20 b40 sac by (auto simp: replacement_invariant_def check_config_def)
  moreover have "\<exists>c. td3_pbt_args num_devices = Inr c \<and> replacement_invariant c \<and>
            check_config c = None"
    unfolding td3_pbt_args_def pbt_args_nonzero [OF nz]
    using b1 assms by (auto simp: replacement_invariant_def check_config_def)
  moreover have "\<forall>c. num_best_to_replace_from c + num_worse_to_replace c > population_size c \<longrightarrow>
            check_config c = Some InvalidConfig"
    by (simp add: check_config_def)
  ultimately show ?thesis by blast
qed

text \<open>
  With four devices both notebooks build a configuration that satisfies the invariant;
  the one-device SAC configuration is rejected by the configuration check.
\<close>

theorem notebook_configs_and_invariant_witness:
  "(0::int) < 4 \<and>
   sac_pbt_args 4 = Inr \<lparr>population_size = 40, num_best_to_replace_from = 5,
                          num_worse_to_replace = 10\<rparr> \<and>
   replacement_invariant \<lparr>population_size = 40, num_best_to_replace_from = 5,
                          num_worse_to_replace = 10\<rparr> \<and>
   td3_pbt_args 4 = Inr \<lparr>population_size = 12, num_best_to_replace_from = 0,
                          num_worse_to_replace = 0\<rparr> \<and>
   replacement_invariant \<lparr>population_size = 12, num_best_to_replace_from = 0,
                          num_worse_to_replace = 0\<rparr> \<and>
   (20::int) + 40 > 10 \<and>
   check_config \<lparr>population_size = 10, num_best_to_replace_from = 20,
                 num_worse_to_replace = 40\<rparr> = Some InvalidConfig"
proof -
  have h: "(0::int) < 4" by simp
  have s: "sac_pbt_args 4 = Inr \<lparr>population_size = 40, num_best_to_replace_from = 5,
                          num_worse_to_replace = 10\<rparr>"
    by (simp add: sac_pbt_args_def pbt_args_def floordiv_def)
  have t: "td3_pbt_args 4 = Inr \<lparr>population_size = 12, num_best_to_replace_from = 0,
                          num_worse_to_replace = 0\<rparr>"
    by (simp add: td3_pbt_args_def pbt_args_def floordiv_def)
  note fact = notebook_configs_and_invariant [OF h]
  from fact s have "replacement_invariant \<lparr>population_size = 40, num_best_to_replace_from = 5,
                          num_worse_to_replace = 10\<rparr>" by auto
  moreover from fact t have "replacement_invariant \<lparr>population_size = 12,
       num_best_to_replace_from = 0, num_worse_to_replace = 0\<rparr>" by auto
  moreover from fact have "check_config \<lparr>population_size = 10, num_best_to_replace_from = 20,
                 num_worse_to_replace = 40\<rparr> = Some InvalidConfig"
    by (elim conjE allE [where x = "\<lparr>population_size = 10, num_best_to_replace_from = 20,
                 num_worse_to_replace = 40\<rparr>"]) simp
  ultimately show ?thesis using s t by simp
qed

section \<open>Properties of the outer training loop\<close>

lemma loop_body_effect:
  assumes "print_freq \<noteq> 0"
  shows "\<exists>st'. loop_body num_loops print_freq train_fn eval_policy select_fn i st = Inr st' \<and>
           trace st' = trace st @ iteration_events num_loops print_freq (eval_env_first_states st) i \<and>
           eval_env_first_states st' = eval_env_first_states st"
  using assms
  by (auto simp: loop_body_def iteration_events_def Let_def split: prod.splits)

lemma loop_over_effect:
  assumes "print_freq \<noteq> 0"
  shows "\<exists>st'. loop_over (loop_body num_loops print_freq train_fn eval_policy select_fn) js st = Inr st' \<and>
           trace st' = trace st @
             concat (map (iteration_events num_loops print_freq (eval_env_first_states st)) js) \<and>
           eval_env_first_states st' = eval_env_first_states st"
proof (induction js arbitrary: st)
  case Nil
  show ?case by simp
next
  case (Cons j js)
  obtain st1 where b: "loop_body num_loops print_freq train_fn eval_policy select_fn j st = Inr st1"
    "trace st1 = trace st @ iteration_events num_loops print_freq (eval_env_first_states st) j"
    "eval_env_first_states st1 = eval_env_first_states st"
    using loop_body_effect [OF assms] by blast
  obtain st2 where r: "loop_over (loop_body num_loops print_freq train_fn eval_policy select_fn) js st1 = Inr st2"
    "trace st2 = trace st1 @
       concat (map (iteration_events num_loops print_freq (eval_env_first_states st1)) js)"
    "eval_env_first_states st2 = eval_env_first_states st1"
    using Cons.IH by blast
  show ?case using b r by simp
qed

lemma filter_less_upt: "filter (\<lambda>k. k < m) [0..<n] = [0..<min m n]"
proof (induction n)
  case 0
  show ?case by simp
next
  case (Suc n)
  show ?case
  proof (cases "n < m")
    case True
    then have "min m (Suc n) = Suc n" "min m n = n" by simp_all
    with Suc True show ?thesis by simp
  next
    case False
    then have "min m (Suc n) = m" "min m n = m" by simp_all
    with Suc False show ?thesis by simp
  qed
qed

lemma filter_range_py: "filter (\<lambda>i. i < m) (range_py n) = range_py (min m n)"
proof -
  have "filter (\<lambda>i. i < m) (map int [0..<nat n]) = map int (filter (\<lambda>k. k < nat m) [0..<nat n])"
    by (simp add: filter_map comp_def zless_nat_eq_int_zless)
  also have "\<dots> = map int [0..<min (nat m) (nat n)]"
    by (simp only: filter_less_upt)
  also have "min (nat m) (nat n) = nat (min m n)"
    by (simp add: min_def nat_le_eq_zle)
  finally show ?thesis by (simp add: range_py_def)
qed

lemma select_events:
  "filter is_select (concat (map (iteration_events num_loops print_freq e) js)) =
     map Select (filter (\<lambda>i. i < num_loops - 1) js)"
  by (induction js) (auto simp: iteration_events_def)

lemma train_events:
  "filter is_train (concat (map (iteration_events num_loops print_freq e) js)) = map Train js"
  by (induction js) (auto simp: iteration_events_def)


lemma loop_over_append:
  "loop_over body (xs @ ys) st =
     (case loop_over body xs st of Inl e \<Rightarrow> Inl e | Inr st' \<Rightarrow> loop_over body ys st')"
  by (induction xs arbitrary: st) (auto split: sum.splits)

lemma range_py_Suc: "0 \<le> i \<Longrightarrow> range_py (i + 1) = range_py i @ [i]"
  by (simp add: range_py_def nat_add_distrib)

lemma loop_body_data_flow:
  assumes "print_freq \<noteq> 0"
  shows "\<exists>after. loop_body num_loops print_freq train_fn eval_policy select_fn i before = Inr after \<and>
           eval_env_first_states after = eval_env_first_states before \<and>
           env_states after =
             fst (snd (fst (train_fn (training_states before) (env_states before)
                              (replay_buffers before)))) \<and>
           population_returns after =
             fst (eval_policy
                    (fst (fst (train_fn (training_states before) (env_states before)
                                 (replay_buffers before))))
                    (eval_env_first_states before)) \<and>
           (if i < num_loops - 1
            then (keys after, training_states after, replay_buffers after) =
                   select_fn (keys before)
                     (fst (eval_policy
                             (fst (fst (train_fn (training_states before) (env_states before)
                                          (replay_buffers before))))
                             (eval_env_first_states before)))
                     (fst (fst (train_fn (training_states before) (env_states before)
                                  (replay_buffers before))))
                     (snd (snd (fst (train_fn (training_states before) (env_states before)
                                       (replay_buffers before)))))
            else keys after = keys before \<and>
                 training_states after =
                   fst (fst (train_fn (training_states before) (env_states before)
                               (replay_buffers before))) \<and>
                 replay_buffers after =
                   snd (snd (fst (train_fn (training_states before) (env_states before)
                                    (replay_buffers before)))))"
proof (cases "i < num_loops - 1")
  case True
  with assms show ?thesis
    by (simp add: loop_body_def Let_def case_prod_beta)
next
  case False
  with assms show ?thesis
    by (simp add: loop_body_def Let_def case_prod_beta)
qed

lemma state_after_defined:
  assumes "print_freq \<noteq> 0"
  shows "\<exists>s. state_after num_loops print_freq train_fn eval_policy select_fn n st = Inr s \<and>
           eval_env_first_states s = eval_env_first_states st"
  unfolding state_after_def using loop_over_effect [OF assms] by blast

lemma state_after_step:
  assumes "0 \<le> i"
    and "state_after num_loops print_freq train_fn eval_policy select_fn i st = Inr before"
  shows "state_after num_loops print_freq train_fn eval_policy select_fn (i + 1) st =
           loop_body num_loops print_freq train_fn eval_policy select_fn i before"
  using assms(2) unfolding state_after_def range_py_Suc [OF assms(1)] loop_over_append
  by (simp split: sum.splits)

text \<open>
  Claim C2 as stated fails: with \<open>num_loops = 10\<close> and \<open>print_freq = 1\<close>, the values of the
  notebooks, the selection runs nine times in ten iterations, and the last iteration has
  no selection. The functions below count their calls: \<open>train_fn\<close> in \<open>training_states\<close>,
  \<open>select_fn\<close> in \<open>keys\<close>.
\<close>

theorem select_skipped_in_last_iteration_counterexample:
  "pbt_loop 10 1
     (\<lambda>ts es rb. ((Suc ts, es, rb), ())) (\<lambda>ts e. (ts, ())) (\<lambda>k r ts rb. (Suc k, ts, rb))
     \<lparr>keys = 0::nat, training_states = 0::nat, env_states = (), replay_buffers = (),
      population_returns = 0::nat, eval_env_first_states = (), trace = []\<rparr> =
   Inr \<lparr>keys = 9, training_states = 10, env_states = (), replay_buffers = (),
        population_returns = 10, eval_env_first_states = (), trace =
      [Train 0, Eval 0 (), Print 0, Select 0, Train 1, Eval 1 (), Print 1, Select 1,
       Train 2, Eval 2 (), Print 2, Select 2, Train 3, Eval 3 (), Print 3, Select 3,
       Train 4, Eval 4 (), Print 4, Select 4, Train 5, Eval 5 (), Print 5, Select 5,
       Train 6, Eval 6 (), Print 6, Select 6, Train 7, Eval 7 (), Print 7, Select 7,
       Train 8, Eval 8 (), Print 8, Select 8, Train 9, Eval 9 (), Print 9]\<rparr>"
  by (simp add: pbt_loop_def range_py_def upt_rec loop_body_def Let_def)

text \<open>
  Claim C2, amended. In the outer training loop of the PBT notebooks, every iteration but
  the last invokes the selection step exactly once, after the block of gradient updates
  (\<open>train_fn\<close>) and after the evaluation (\<open>eval_policy\<close>) of that iteration, and the last
  iteration (\<open>i = num_loops - 1\<close>) does not invoke it. For every iteration \<open>i\<close> of a run,
  with the state before it and the state after it: the block of gradient updates is
  applied to the state before; the returns are the evaluation of the trained states;
  when \<open>i < num_loops - 1\<close> the keys, training states and replay buffers after the
  iteration are the one result of \<open>select_fn\<close> applied to the keys before, these returns
  and the trained states and buffers; in the last iteration the keys are those before
  and the training states and buffers are the trained ones. The whole loop is the state
  after \<open>num_loops\<close> iterations, and its log has the selections of the iterations
  \<open>0, ..., num_loops - 2\<close>, once each and in this order.
\<close>

theorem select_once_per_iteration_but_last:
  assumes "print_freq \<noteq> 0"
  shows "(\<exists>st'. pbt_loop num_loops print_freq train_fn eval_policy select_fn st = Inr st' \<and>
            state_after num_loops print_freq train_fn eval_policy select_fn num_loops st =
              Inr st' \<and>
            trace st' = trace st @
              concat (map (iteration_events num_loops print_freq (eval_env_first_states st))
                        (range_py num_loops)) \<and>
            filter is_select (drop (length (trace st)) (trace st')) =
              map Select (range_py (num_loops - 1))) \<and>
         (\<forall>i. 0 \<le> i \<and> i < num_loops \<longrightarrow>
            (\<exists>before after.
               state_after num_loops print_freq train_fn eval_policy select_fn i st =
                 Inr before \<and>
               state_after num_loops print_freq train_fn eval_policy select_fn (i + 1) st =
                 Inr after \<and>
               (let trained = fst (train_fn (training_states before) (env_states before)
                                     (replay_buffers before));
                    returns = fst (eval_policy (fst trained) (eval_env_first_states before))
                in env_states after = fst (snd trained) \<and>
                   population_returns after = returns \<and>
                   (if i < num_loops - 1
                    then (keys after, training_states after, replay_buffers after) =
                           select_fn (keys before) returns (fst trained) (snd (snd trained))
                    else keys after = keys before \<and>
                         training_states after = fst trained \<and>
                         replay_buffers after = snd (snd trained)))))"
proof -
  obtain st' where r: "pbt_loop num_loops print_freq train_fn eval_policy select_fn st = Inr st'"
    "trace st' = trace st @
       concat (map (iteration_events num_loops print_freq (eval_env_first_states st))
                 (range_py num_loops))"
    unfolding pbt_loop_def using loop_over_effect [OF assms] by blast
  have sa: "state_after num_loops print_freq train_fn eval_policy select_fn num_loops st = Inr st'"
    using r(1) by (simp add: state_after_def pbt_loop_def)
  have "filter is_select (drop (length (trace st)) (trace st')) =
          map Select (filter (\<lambda>i. i < num_loops - 1) (range_py num_loops))"
    using r(2) by (simp add: select_events)
  also have "\<dots> = map Select (range_py (num_loops - 1))"
    by (simp add: filter_range_py min_def)
  finally have whole: "\<exists>st'. pbt_loop num_loops print_freq train_fn eval_policy select_fn st = Inr st' \<and>
            state_after num_loops print_freq train_fn eval_policy select_fn num_loops st =
              Inr st' \<and>
            trace st' = trace st @
              concat (map (iteration_events num_loops print_freq (eval_env_first_states st))
                        (range_py num_loops)) \<and>
            filter is_select (drop (length (trace st)) (trace st')) =
              map Select (range_py (num_loops - 1))"
    using r sa by blast
  have each: "\<exists>before after.
               state_after num_loops print_freq train_fn eval_policy select_fn i st =
                 Inr before \<and>
               state_after num_loops print_freq train_fn eval_policy select_fn (i + 1) st =
                 Inr after \<and>
               (let trained = fst (train_fn (training_states before) (env_states before)
                                     (replay_buffers before));
                    returns = fst (eval_policy (fst trained) (eval_env_first_states before))
                in env_states after = fst (snd trained) \<and>
                   population_returns after = returns \<and>
                   (if i < num_loops - 1
                    then (keys after, training_states after, replay_buffers after) =
                           select_fn (keys before) returns (fst trained) (snd (snd trained))
                    else keys after = keys before \<and>
                         training_states after = fst trained \<and>
                         replay_buffers after = snd (snd trained)))"
    if i: "0 \<le> i" for i
  proof -
    obtain before where b:
      "state_after num_loops print_freq train_fn eval_policy select_fn i st = Inr before"
      using state_after_defined [OF assms] by blast
    have step: "state_after num_loops print_freq train_fn eval_policy select_fn (i + 1) st =
                  loop_body num_loops print_freq train_fn eval_policy select_fn i before"
      by (rule state_after_step [OF i b])
    from loop_body_data_flow [OF assms, of num_loops train_fn eval_policy select_fn i before]
    obtain after where
      a: "loop_body num_loops print_freq train_fn eval_policy select_fn i before = Inr after"
      and d: "env_states after =
             fst (snd (fst (train_fn (training_states before) (env_states before)
                              (replay_buffers before))))"
        "population_returns after =
             fst (eval_policy
                    (fst (fst (train_fn (training_states before) (env_states before)
                                 (replay_buffers before))))
                    (eval_env_first_states before))"
        "if i < num_loops - 1
            then (keys after, training_states after, replay_buffers after) =
                   select_fn (keys before)
                     (fst (eval_policy
                             (fst (fst (train_fn (training_states before) (env_states before)
                                          (replay_buffers before))))
                             (eval_env_first_states before)))
                     (fst (fst (train_fn (training_states before) (env_states before)
                                  (replay_buffers before))))
                     (snd (snd (fst (train_fn (training_states before) (env_states before)
                                       (replay_buffers before)))))
            else keys after = keys before \<and>
                 training_states after =
                   fst (fst (train_fn (training_states before) (env_states before)
                               (replay_buffers before))) \<and>
                 replay_buffers after =
                   snd (snd (fst (train_fn (training_states before) (env_states before)
                                    (replay_buffers before))))"
      by blast
    show ?thesis
      unfolding Let_def
      by (rule exI [of _ before], rule exI [of _ after]) (use b step a d in simp)
  qed
  show ?thesis using whole each by blast
qed

text \<open>
  Three iterations in which every call changes what the next one reads: training adds 1
  to the training states and 10 to the environment states, the return is
  \<open>100 * training_states + eval_env_first_states\<close>, and selection adds the return to the
  keys, doubles the training states and adds 1 to the replay buffers. Iteration 1 selects
  on the return 307 of the trained state 3; iteration 2, the last, trains and evaluates
  and leaves the keys as they were.
\<close>

theorem select_once_per_iteration_but_last_witness:
  "(1::int) \<noteq> 0 \<and>
   state_after 3 1
     (\<lambda>ts es rb. ((ts + 1, es + 10, rb), ())) (\<lambda>ts e. (100 * ts + e, ()))
     (\<lambda>k r ts rb. (k + r, 2 * ts, rb + 1)) 1
     \<lparr>keys = 0::nat, training_states = 0::nat, env_states = 0::nat, replay_buffers = 0::nat,
      population_returns = 0::nat, eval_env_first_states = 7, trace = []\<rparr> =
     Inr \<lparr>keys = 107, training_states = 2, env_states = 10, replay_buffers = 1,
          population_returns = 107, eval_env_first_states = 7,
          trace = [Train 0, Eval 0 7, Print 0, Select 0]\<rparr> \<and>
   (0::int) \<le> 1 \<and> (1::int) < 3 \<and> (1::int) < 3 - 1 \<and>
   (\<exists>after. state_after 3 1
      (\<lambda>ts es rb. ((ts + 1, es + 10, rb), ())) (\<lambda>ts e. (100 * ts + e, ()))
      (\<lambda>k r ts rb. (k + r, 2 * ts, rb + 1)) 2
      \<lparr>keys = 0::nat, training_states = 0::nat, env_states = 0::nat, replay_buffers = 0::nat,
       population_returns = 0::nat, eval_env_first_states = 7, trace = []\<rparr> = Inr after \<and>
      env_states after = 20 \<and> population_returns after = 307 \<and>
      keys after = 107 + 307 \<and> training_states after = 2 * 3 \<and> replay_buffers after = 2) \<and>
   state_after 3 1
     (\<lambda>ts es rb. ((ts + 1, es + 10, rb), ())) (\<lambda>ts e. (100 * ts + e, ()))
     (\<lambda>k r ts rb. (k + r, 2 * ts, rb + 1)) 2
     \<lparr>keys = 0::nat, training_states = 0::nat, env_states = 0::nat, replay_buffers = 0::nat,
      population_returns = 0::nat, eval_env_first_states = 7, trace = []\<rparr> =
     Inr \<lparr>keys = 414, training_states = 6, env_states = 20, replay_buffers = 2,
          population_returns = 307, eval_env_first_states = 7,
          trace = [Train 0, Eval 0 7, Print 0, Select 0,
                   Train 1, Eval 1 7, Print 1, Select 1]\<rparr> \<and>
   (0::int) \<le> 2 \<and> (2::int) < 3 \<and> \<not> (2::int) < 3 - 1 \<and>
   (\<exists>after. pbt_loop 3 1
      (\<lambda>ts es rb. ((ts + 1, es + 10, rb), ())) (\<lambda>ts e. (100 * ts + e, ()))
      (\<lambda>k r ts rb. (k + r, 2 * ts, rb + 1))
      \<lparr>keys = 0::nat, training_states = 0::nat, env_states = 0::nat, replay_buffers = 0::nat,
       population_returns = 0::nat, eval_env_first_states = 7, trace = []\<rparr> = Inr after \<and>
      env_states after = 30 \<and> population_returns after = 707 \<and>
      keys after = 414 \<and> training_states after = 7 \<and> replay_buffers after = 2 \<and>
      filter is_select (trace after) = [Select 0, Select 1])"
proof -
  let ?tf = "\<lambda>(ts::nat) (es::nat) (rb::nat). ((ts + 1, es + 10, rb), ())"
  let ?ef = "\<lambda>(ts::nat) (e::nat). (100 * ts + e, ())"
  let ?sf = "\<lambda>(k::nat) (r::nat) (ts::nat) (rb::nat). (k + r, 2 * ts, rb + 1)"
  let ?st = "\<lparr>keys = 0::nat, training_states = 0::nat, env_states = 0::nat,
              replay_buffers = 0::nat, population_returns = 0::nat,
              eval_env_first_states = 7::nat, trace = []\<rparr>"
  have h: "(1::int) \<noteq> 0" by simp
  have r: "range_py 1 = [0]" "range_py 2 = [0, 1]" "range_py 3 = [0, 1, 2]"
    by (simp_all add: range_py_def upt_rec)
  have s1: "state_after 3 1 ?tf ?ef ?sf 1 ?st =
     Inr \<lparr>keys = 107, training_states = 2, env_states = 10, replay_buffers = 1,
          population_returns = 107, eval_env_first_states = 7,
          trace = [Train 0, Eval 0 7, Print 0, Select 0]\<rparr>"
    by (simp add: state_after_def r loop_body_def Let_def)
  have s2: "state_after 3 1 ?tf ?ef ?sf 2 ?st =
     Inr \<lparr>keys = 414, training_states = 6, env_states = 20, replay_buffers = 2,
          population_returns = 307, eval_env_first_states = 7,
          trace = [Train 0, Eval 0 7, Print 0, Select 0,
                   Train 1, Eval 1 7, Print 1, Select 1]\<rparr>"
    by (simp add: state_after_def r loop_body_def Let_def)
  note fact = select_once_per_iteration_but_last [OF h, where num_loops = 3
      and train_fn = ?tf and eval_policy = ?ef and select_fn = ?sf and st = ?st]
  from fact [THEN conjunct2, rule_format, of 1]
  have a1: "\<exists>after. state_after 3 1 ?tf ?ef ?sf 2 ?st = Inr after \<and>
      env_states after = 20 \<and> population_returns after = 307 \<and>
      keys after = 107 + 307 \<and> training_states after = 2 * 3 \<and> replay_buffers after = 2"
    unfolding s1 by (auto simp: Let_def)
  from fact [THEN conjunct2, rule_format, of 2]
  have "\<exists>after. state_after 3 1 ?tf ?ef ?sf 3 ?st = Inr after \<and>
      env_states after = 30 \<and> population_returns after = 707 \<and>
      keys after = 414 \<and> training_states after = 7 \<and> replay_buffers after = 2"
    unfolding s2 by (auto simp: Let_def)
  moreover from fact [THEN conjunct1]
  have "\<exists>st'. pbt_loop 3 1 ?tf ?ef ?sf ?st = Inr st' \<and>
      state_after 3 1 ?tf ?ef ?sf 3 ?st = Inr st' \<and>
      filter is_select (trace st') = [Select 0, Select 1]"
    by (auto simp: r)
  ultimately have a2: "\<exists>after. pbt_loop 3 1 ?tf ?ef ?sf ?st = Inr after \<and>
      env_states after = 30 \<and> population_returns after = 707 \<and>
      keys after = 414 \<and> training_states after = 7 \<and> replay_buffers after = 2 \<and>
      filter is_select (trace after) = [Select 0, Select 1]"
    by auto
  show ?thesis using s1 s2 a1 a2 by simp
qed

lemma eval_events:
  "Eval i e' \<in> set (concat (map (iteration_events num_loops print_freq e) js)) \<longleftrightarrow>
     i \<in> set js \<and> e' = e"
  by (induction js) (auto simp: iteration_events_def)

text \<open>
  Claim C10. \<open>eval_env_first_states\<close> is an invariant of the outer training loop: the
  state before and after every iteration holds the value the loop started with, and in
  every iteration the returns are the result of \<open>eval_policy\<close> applied to the states
  trained in that iteration and to the value of \<open>eval_env_first_states\<close> from before the
  loop. The loop ends with that value, and every evaluation in its log was started
  from it.
\<close>

theorem eval_env_first_states_invariant:
  assumes "print_freq \<noteq> 0"
  shows "(\<exists>st'. pbt_loop num_loops print_freq train_fn eval_policy select_fn st = Inr st' \<and>
            state_after num_loops print_freq train_fn eval_policy select_fn num_loops st =
              Inr st' \<and>
            eval_env_first_states st' = eval_env_first_states st \<and>
            (\<forall>i e. Eval i e \<in> set (drop (length (trace st)) (trace st')) \<longrightarrow>
                   e = eval_env_first_states st) \<and>
            (\<forall>i \<in> set (range_py num_loops).
               Eval i (eval_env_first_states st) \<in>
                 set (drop (length (trace st)) (trace st')))) \<and>
         (\<forall>i. 0 \<le> i \<and> i < num_loops \<longrightarrow>
            (\<exists>before after.
               state_after num_loops print_freq train_fn eval_policy select_fn i st =
                 Inr before \<and>
               state_after num_loops print_freq train_fn eval_policy select_fn (i + 1) st =
                 Inr after \<and>
               eval_env_first_states before = eval_env_first_states st \<and>
               eval_env_first_states after = eval_env_first_states st \<and>
               population_returns after =
                 fst (eval_policy
                        (fst (fst (train_fn (training_states before) (env_states before)
                                     (replay_buffers before))))
                        (eval_env_first_states st))))"
proof -
  obtain st' where r: "pbt_loop num_loops print_freq train_fn eval_policy select_fn st = Inr st'"
    "trace st' = trace st @
       concat (map (iteration_events num_loops print_freq (eval_env_first_states st))
                 (range_py num_loops))"
    "eval_env_first_states st' = eval_env_first_states st"
    unfolding pbt_loop_def using loop_over_effect [OF assms] by blast
  have sa: "state_after num_loops print_freq train_fn eval_policy select_fn num_loops st = Inr st'"
    using r(1) by (simp add: state_after_def pbt_loop_def)
  have d: "drop (length (trace st)) (trace st') =
       concat (map (iteration_events num_loops print_freq (eval_env_first_states st))
                 (range_py num_loops))"
    using r(2) by simp
  have "\<forall>i e. Eval i e \<in> set (drop (length (trace st)) (trace st')) \<longrightarrow>
                  e = eval_env_first_states st"
    unfolding d eval_events by blast
  moreover have "\<forall>i \<in> set (range_py num_loops).
              Eval i (eval_env_first_states st) \<in> set (drop (length (trace st)) (trace st'))"
    unfolding d eval_events by blast
  ultimately have whole: "\<exists>st'. pbt_loop num_loops print_freq train_fn eval_policy select_fn st = Inr st' \<and>
            state_after num_loops print_freq train_fn eval_policy select_fn num_loops st =
              Inr st' \<and>
            eval_env_first_states st' = eval_env_first_states st \<and>
            (\<forall>i e. Eval i e \<in> set (drop (length (trace st)) (trace st')) \<longrightarrow>
                   e = eval_env_first_states st) \<and>
            (\<forall>i \<in> set (range_py num_loops).
               Eval i (eval_env_first_states st) \<in>
                 set (drop (length (trace st)) (trace st')))"
    using r(1,3) sa by blast
  have each: "\<exists>before after.
               state_after num_loops print_freq train_fn eval_policy select_fn i st =
                 Inr before \<and>
               state_after num_loops print_freq train_fn eval_policy select_fn (i + 1) st =
                 Inr after \<and>
               eval_env_first_states before = eval_env_first_states st \<and>
               eval_env_first_states after = eval_env_first_states st \<and>
               population_returns after =
                 fst (eval_policy
                        (fst (fst (train_fn (training_states before) (env_states before)
                                     (replay_buffers before))))
                        (eval_env_first_states st))"
    if i: "0 \<le> i" for i
  proof -
    obtain before where b:
      "state_after num_loops print_freq train_fn eval_policy select_fn i st = Inr before"
      "eval_env_first_states before = eval_env_first_states st"
      using state_after_defined [OF assms] by blast
    have step: "state_after num_loops print_freq train_fn eval_policy select_fn (i + 1) st =
                  loop_body num_loops print_freq train_fn eval_policy select_fn i before"
      by (rule state_after_step [OF i b(1)])
    from loop_body_data_flow [OF assms, of num_loops train_fn eval_policy select_fn i before]
    obtain after where
      a: "loop_body num_loops print_freq train_fn eval_policy select_fn i before = Inr after"
      and e: "eval_env_first_states after = eval_env_first_states before"
      and p: "population_returns after =
             fst (eval_policy
                    (fst (fst (train_fn (training_states before) (env_states before)
                                 (replay_buffers before))))
                    (eval_env_first_states before))"
      by blast
    show ?thesis
      by (rule exI [of _ before], rule exI [of _ after]) (use b step a e p in simp)
  qed
  show ?thesis using whole each by blast
qed

text \<open>
  Two iterations in which training changes \<open>env_states\<close> (from 7 to 8 and 9) and the
  return is \<open>training_states + \<close> the environment states handed to the evaluation: the
  last return is \<open>2 + 7\<close>, from the initial 7, and not \<open>2 + 9\<close>.
\<close>

theorem eval_env_first_states_invariant_witness:
  "(1::int) \<noteq> 0 \<and>
   state_after 2 1
     (\<lambda>ts es rb. ((Suc ts, Suc es, rb), ())) (\<lambda>ts e. (ts + e, ())) (\<lambda>k r ts rb. (Suc k, ts, rb)) 1
     \<lparr>keys = 0::nat, training_states = 0::nat, env_states = 7::nat, replay_buffers = (),
      population_returns = 0::nat, eval_env_first_states = 7, trace = []\<rparr> =
     Inr \<lparr>keys = 1, training_states = 1, env_states = 8, replay_buffers = (),
          population_returns = 8, eval_env_first_states = 7,
          trace = [Train 0, Eval 0 7, Print 0, Select 0]\<rparr> \<and>
   (0::int) \<le> 1 \<and> (1::int) < 2 \<and>
   (\<exists>st'. pbt_loop 2 1
      (\<lambda>ts es rb. ((Suc ts, Suc es, rb), ())) (\<lambda>ts e. (ts + e, ())) (\<lambda>k r ts rb. (Suc k, ts, rb))
      \<lparr>keys = 0::nat, training_states = 0::nat, env_states = 7::nat, replay_buffers = (),
       population_returns = 0::nat, eval_env_first_states = 7, trace = []\<rparr> = Inr st' \<and>
      eval_env_first_states st' = 7 \<and>
      population_returns st' = 2 + 7 \<and>
      Eval 0 7 \<in> set (trace st') \<and> Eval 1 7 \<in> set (trace st') \<and>
      Eval 1 8 \<notin> set (trace st'))"
proof -
  let ?tf = "\<lambda>(ts::nat) (es::nat) (rb::unit). ((Suc ts, Suc es, rb), ())"
  let ?ef = "\<lambda>(ts::nat) (e::nat). (ts + e, ())"
  let ?sf = "\<lambda>(k::nat) (r::nat) (ts::nat) (rb::unit). (Suc k, ts, rb)"
  let ?st = "\<lparr>keys = 0::nat, training_states = 0::nat, env_states = 7::nat,
              replay_buffers = (), population_returns = 0::nat,
              eval_env_first_states = 7::nat, trace = []\<rparr>"
  have h: "(1::int) \<noteq> 0" by simp
  have r: "range_py 1 = [0]" "range_py 2 = [0, 1]"
    by (simp_all add: range_py_def upt_rec)
  have s1: "state_after 2 1 ?tf ?ef ?sf 1 ?st =
     Inr \<lparr>keys = 1, training_states = 1, env_states = 8, replay_buffers = (),
          population_returns = 8, eval_env_first_states = 7,
          trace = [Train 0, Eval 0 7, Print 0, Select 0]\<rparr>"
    by (simp add: state_after_def r loop_body_def Let_def)
  note fact = eval_env_first_states_invariant [OF h, where num_loops = 2
      and train_fn = ?tf and eval_policy = ?ef and select_fn = ?sf and st = ?st]
  from fact [THEN conjunct2, rule_format, of 1]
  have last: "\<exists>after. state_after 2 1 ?tf ?ef ?sf 2 ?st = Inr after \<and>
      population_returns after = 2 + 7"
    unfolding s1 by auto
  from fact [THEN conjunct1]
  obtain st' where s: "pbt_loop 2 1 ?tf ?ef ?sf ?st = Inr st'"
    and sa: "state_after 2 1 ?tf ?ef ?sf 2 ?st = Inr st'"
    and e: "eval_env_first_states st' = 7"
    and a: "\<forall>i e. Eval i e \<in> set (trace st') \<longrightarrow> e = 7"
    and b: "\<forall>i \<in> set (range_py 2). Eval i 7 \<in> set (trace st')"
    by auto
  have p: "population_returns st' = 2 + 7" using last sa by auto
  have "Eval 0 7 \<in> set (trace st')" "Eval 1 7 \<in> set (trace st')"
    using b by (simp_all add: r)
  moreover have "Eval 1 8 \<notin> set (trace st')"
  proof
    assume "Eval 1 8 \<in> set (trace st')"
    with a have "(8::nat) = 7" by blast
    then show False by simp
  qed
  ultimately show ?thesis using h s1 s e p by auto
qed

section \<open>Properties of the CMA-ES and scan loops\<close>

lemma scan_length: "length (snd (scan f c n)) = n"
  by (induction n arbitrary: c) (simp_all add: case_prod_beta)

lemma scan_carry: "fst (scan f c n) = ((\<lambda>c. fst (f c ())) ^^ n) c"
proof (induction n arbitrary: c)
  case 0
  show ?case by simp
next
  case (Suc n)
  obtain c' y where s: "f c () = (c', y)" by (cases "f c ()")
  have "fst (scan f c (Suc n)) = fst (scan f c' n)"
    using s by (simp add: case_prod_beta)
  also have "\<dots> = ((\<lambda>c. fst (f c ())) ^^ n) c'" by (rule Suc.IH)
  also have "c' = (\<lambda>c. fst (f c ())) c" using s by simp
  also have "((\<lambda>c. fst (f c ())) ^^ n) ((\<lambda>c. fst (f c ())) c) = ((\<lambda>c. fst (f c ())) ^^ Suc n) c"
    by (simp only: funpow_Suc_right comp_apply)
  finally show ?case .
qed

lemma cmaes_loop_count_bounds:
  "iteration_count r \<le> iteration_count (cmaes_loop sample update stop_condition mean_of cov_of m r) \<and>
   iteration_count (cmaes_loop sample update stop_condition mean_of cov_of m r) \<le> iteration_count r + int m"
proof (induction m arbitrary: r)
  case 0
  show ?case by simp
next
  case (Suc m)
  obtain smp key where s: "sample (state r) (random_key r) = (smp, key)"
    by (cases "sample (state r) (random_key r)")
  show ?case
  proof (cases "stop_condition (update (state r) smp)")
    case True
    then show ?thesis using s by (simp add: Let_def)
  next
    case False
    let ?r' = "r\<lparr>iteration_count := iteration_count r + 1, samples := Some smp,
                  random_key := key, state := update (state r) smp,
                  means := means r @ [mean_of (update (state r) smp)],
                  covs := covs r @ [cov_of (update (state r) smp)]\<rparr>"
    have e: "cmaes_loop sample update stop_condition mean_of cov_of (Suc m) r =
             cmaes_loop sample update stop_condition mean_of cov_of m ?r'"
      using s False by (simp add: Let_def)
    show ?thesis using Suc.IH [of ?r'] unfolding e by simp
  qed
qed

lemma cmaes_loop_not_stopped:
  assumes "\<forall>j. 1 \<le> j \<and> j \<le> m \<longrightarrow>
             \<not> stop_condition (fst (cmaes_after sample update j (state r, random_key r)))"
  shows "iteration_count (cmaes_loop sample update stop_condition mean_of cov_of m r) =
           iteration_count r + int m"
  using assms
proof (induction m arbitrary: r)
  case 0
  show ?case by simp
next
  case (Suc m)
  obtain smp key where s: "sample (state r) (random_key r) = (smp, key)"
    by (cases "sample (state r) (random_key r)")
  have one: "cmaes_after sample update (Suc 0) (state r, random_key r) = (update (state r) smp, key)"
    using s by simp
  have ns: "\<not> stop_condition (update (state r) smp)"
    using Suc.prems [rule_format, of "Suc 0"] one by simp
  let ?r' = "r\<lparr>iteration_count := iteration_count r + 1, samples := Some smp,
                random_key := key, state := update (state r) smp,
                means := means r @ [mean_of (update (state r) smp)],
                covs := covs r @ [cov_of (update (state r) smp)]\<rparr>"
  have e: "cmaes_loop sample update stop_condition mean_of cov_of (Suc m) r =
           cmaes_loop sample update stop_condition mean_of cov_of m ?r'"
    using s ns by (simp add: Let_def)
  have "\<forall>j. 1 \<le> j \<and> j \<le> m \<longrightarrow>
          \<not> stop_condition (fst (cmaes_after sample update j (state ?r', random_key ?r')))"
  proof (intro allI impI)
    fix j assume "1 \<le> j \<and> j \<le> m"
    then have "\<not> stop_condition (fst (cmaes_after sample update (Suc j) (state r, random_key r)))"
      using Suc.prems by (simp del: cmaes_after.simps)
    then show "\<not> stop_condition (fst (cmaes_after sample update j (state ?r', random_key ?r')))"
      using s by simp
  qed
  from Suc.IH [OF this] show ?case unfolding e by simp
qed

lemma cmaes_loop_stopped:
  assumes "1 \<le> j" "j \<le> m"
    and "stop_condition (fst (cmaes_after sample update j (state r, random_key r)))"
    and "\<forall>i. 1 \<le> i \<and> i < j \<longrightarrow>
             \<not> stop_condition (fst (cmaes_after sample update i (state r, random_key r)))"
  shows "iteration_count (cmaes_loop sample update stop_condition mean_of cov_of m r) =
           iteration_count r + int j"
  using assms
proof (induction m arbitrary: r j)
  case 0
  then show ?case by simp
next
  case (Suc m)
  obtain smp key where s: "sample (state r) (random_key r) = (smp, key)"
    by (cases "sample (state r) (random_key r)")
  have one: "cmaes_after sample update (Suc 0) (state r, random_key r) = (update (state r) smp, key)"
    using s by simp
  show ?case
  proof (cases "j = 1")
    case True
    then have "stop_condition (update (state r) smp)" using Suc.prems(3) one by simp
    then show ?thesis using s True by (simp add: Let_def)
  next
    case False
    then obtain j' where j': "j = Suc j'" "1 \<le> j'" "j' \<le> m"
      using Suc.prems(1,2) by (cases j) auto
    have ns: "\<not> stop_condition (update (state r) smp)"
      using Suc.prems(4) [rule_format, of "Suc 0"] one j' by simp
    let ?r' = "r\<lparr>iteration_count := iteration_count r + 1, samples := Some smp,
                  random_key := key, state := update (state r) smp,
                  means := means r @ [mean_of (update (state r) smp)],
                  covs := covs r @ [cov_of (update (state r) smp)]\<rparr>"
    have e: "cmaes_loop sample update stop_condition mean_of cov_of (Suc m) r =
             cmaes_loop sample update stop_condition mean_of cov_of m ?r'"
      using s ns by (simp add: Let_def)
    have st: "stop_condition (fst (cmaes_after sample update j' (state ?r', random_key ?r')))"
      using Suc.prems(3) s j'(1) by simp
    have "\<forall>i. 1 \<le> i \<and> i < j' \<longrightarrow>
            \<not> stop_condition (fst (cmaes_after sample update i (state ?r', random_key ?r')))"
    proof (intro allI impI)
      fix i assume "1 \<le> i \<and> i < j'"
      then have "\<not> stop_condition (fst (cmaes_after sample update (Suc i) (state r, random_key r)))"
        using Suc.prems(4) j'(1) by (simp del: cmaes_after.simps)
      then show "\<not> stop_condition (fst (cmaes_after sample update i (state ?r', random_key ?r')))"
        using s by simp
    qed
    from Suc.IH [OF j'(2,3) st this] show ?thesis unfolding e using j'(1) by simp
  qed
qed

text \<open>
  Claim C3 as stated fails: the CMA-ES loop leaves through \<open>break\<close> as soon as the stop
  condition holds. With a stop condition that holds from the third update on, the body
  runs three times for \<open>num_iterations = 1000\<close>.
\<close>

theorem cmaes_loop_stops_early_counterexample:
  "iteration_count
     (cmaes_cell (\<lambda>st k. (st, k)) (\<lambda>st smp. Suc st) (\<lambda>st. 3 \<le> st) (\<lambda>st. st) (\<lambda>st. st)
        1000 (0::nat) ()) = 3"
  by code_simp

text \<open>
  Claim C3, amended. The outer training loop of the PBT notebooks runs its body exactly
  \<open>num_loops\<close> times (one block of gradient updates per \<open>i\<close> in \<open>range(num_loops)\<close>), and
  the scan loops of the MOME, NSGA2 and SPEA2 notebooks run their body exactly
  \<open>num_iterations\<close> times for \<open>num_iterations \<ge> 0\<close> (one stacked output per call, the
  carry threaded through all of them). The CMA-ES loop runs its body at most \<open>num_iterations\<close> times: exactly
  \<open>num_iterations\<close> times when the stop condition holds after none of the updates, and
  exactly \<open>j\<close> times when the \<open>j\<close>-th update is the first after which it holds.
\<close>

theorem loops_run_configured_count_unless_stopped:
  "(print_freq \<noteq> 0 \<longrightarrow>
      (\<exists>st'. pbt_loop num_loops print_freq train_fn eval_policy select_fn st = Inr st' \<and>
         filter is_train (drop (length (trace st)) (trace st')) =
           map Train (range_py num_loops))) \<and>
   (0 \<le> num_iterations \<longrightarrow>
      length (snd (scan_cell scan_update init num_iterations)) = nat num_iterations \<and>
      fst (scan_cell scan_update init num_iterations) =
        ((\<lambda>c. fst (scan_update c ())) ^^ nat num_iterations) init) \<and>
   0 \<le> iteration_count
         (cmaes_cell sample update stop_condition mean_of cov_of cmaes_iterations s0 key0) \<and>
   iteration_count
     (cmaes_cell sample update stop_condition mean_of cov_of cmaes_iterations s0 key0)
     \<le> int (nat cmaes_iterations) \<and>
   ((\<forall>j. 1 \<le> j \<and> j \<le> nat cmaes_iterations \<longrightarrow>
        \<not> stop_condition (fst (cmaes_after sample update j (s0, key0)))) \<longrightarrow>
    iteration_count
      (cmaes_cell sample update stop_condition mean_of cov_of cmaes_iterations s0 key0) =
      int (nat cmaes_iterations)) \<and>
   (1 \<le> j \<and> j \<le> nat cmaes_iterations \<and>
    stop_condition (fst (cmaes_after sample update j (s0, key0))) \<and>
    (\<forall>i. 1 \<le> i \<and> i < j \<longrightarrow>
        \<not> stop_condition (fst (cmaes_after sample update i (s0, key0)))) \<longrightarrow>
    iteration_count
      (cmaes_cell sample update stop_condition mean_of cov_of cmaes_iterations s0 key0) =
      int j)"
proof -
  let ?r0 = "\<lparr>state = s0, random_key = key0, samples = None, means = [mean_of s0],
              covs = [cov_of s0], iteration_count = 0\<rparr>"
  have pbt: "print_freq \<noteq> 0 \<longrightarrow>
      (\<exists>st'. pbt_loop num_loops print_freq train_fn eval_policy select_fn st = Inr st' \<and>
         filter is_train (drop (length (trace st)) (trace st')) =
           map Train (range_py num_loops))"
  proof
    assume nz: "print_freq \<noteq> 0"
    obtain st' where r: "pbt_loop num_loops print_freq train_fn eval_policy select_fn st = Inr st'"
      "trace st' = trace st @
         concat (map (iteration_events num_loops print_freq (eval_env_first_states st))
                   (range_py num_loops))"
      unfolding pbt_loop_def using loop_over_effect [OF nz] by blast
    have "filter is_train (drop (length (trace st)) (trace st')) = map Train (range_py num_loops)"
      using r(2) by (simp add: train_events)
    with r(1) show "\<exists>st'. pbt_loop num_loops print_freq train_fn eval_policy select_fn st = Inr st' \<and>
         filter is_train (drop (length (trace st)) (trace st')) =
           map Train (range_py num_loops)" by blast
  qed
  have sc: "length (snd (scan_cell scan_update init num_iterations)) = nat num_iterations"
    "fst (scan_cell scan_update init num_iterations) =
       ((\<lambda>c. fst (scan_update c ())) ^^ nat num_iterations) init"
    by (simp_all add: scan_cell_def scan_length scan_carry)
  have bd: "0 \<le> iteration_count
         (cmaes_cell sample update stop_condition mean_of cov_of cmaes_iterations s0 key0)"
    "iteration_count
     (cmaes_cell sample update stop_condition mean_of cov_of cmaes_iterations s0 key0)
     \<le> int (nat cmaes_iterations)"
    using cmaes_loop_count_bounds [of ?r0 sample update stop_condition mean_of cov_of
        "nat cmaes_iterations"]
    by (simp_all add: cmaes_cell_def)
  have ns: "(\<forall>j. 1 \<le> j \<and> j \<le> nat cmaes_iterations \<longrightarrow>
        \<not> stop_condition (fst (cmaes_after sample update j (s0, key0)))) \<longrightarrow>
    iteration_count
      (cmaes_cell sample update stop_condition mean_of cov_of cmaes_iterations s0 key0) =
      int (nat cmaes_iterations)"
    using cmaes_loop_not_stopped [of "nat cmaes_iterations" stop_condition sample update ?r0
        mean_of cov_of]
    by (simp add: cmaes_cell_def)
  have sp: "1 \<le> j \<and> j \<le> nat cmaes_iterations \<and>
    stop_condition (fst (cmaes_after sample update j (s0, key0))) \<and>
    (\<forall>i. 1 \<le> i \<and> i < j \<longrightarrow>
        \<not> stop_condition (fst (cmaes_after sample update i (s0, key0)))) \<longrightarrow>
    iteration_count
      (cmaes_cell sample update stop_condition mean_of cov_of cmaes_iterations s0 key0) =
      int j"
    using cmaes_loop_stopped [of j "nat cmaes_iterations" stop_condition sample update ?r0
        mean_of cov_of]
    by (simp add: cmaes_cell_def)
  show ?thesis using pbt sc bd ns sp by blast
qed

text \<open>
  A PBT loop of three iterations, a scan of length four, a CMA-ES loop of four iterations
  that is never stopped, and one of a thousand iterations that stops after the third.
\<close>

theorem loops_run_configured_count_unless_stopped_witness:
  "(1::int) \<noteq> 0 \<and>
   (\<exists>st'. pbt_loop 3 1
      (\<lambda>ts es rb. ((Suc ts, es, rb), ())) (\<lambda>ts e. (ts, ())) (\<lambda>k r ts rb. (Suc k, ts, rb))
      \<lparr>keys = 0::nat, training_states = 0::nat, env_states = (), replay_buffers = (),
       population_returns = 0::nat, eval_env_first_states = (), trace = []\<rparr> = Inr st' \<and>
      filter is_train (trace st') = [Train 0, Train 1, Train 2]) \<and>
   (0::int) \<le> 4 \<and> length (snd (scan_cell (\<lambda>c u. (Suc c, c)) (0::nat) 4)) = 4 \<and>
   iteration_count
     (cmaes_cell (\<lambda>st k. (st, k)) (\<lambda>st smp. Suc st) (\<lambda>st. False) (\<lambda>st. st) (\<lambda>st. st)
        4 (0::nat) ()) = 4 \<and>
   iteration_count
     (cmaes_cell (\<lambda>st k. (st, k)) (\<lambda>st smp. Suc st) (\<lambda>st. 3 \<le> st) (\<lambda>st. st) (\<lambda>st. st)
        1000 (0::nat) ()) = 3"
proof -
  have r: "range_py 3 = [0, 1, 2]" by (simp add: range_py_def upt_rec)
  have after: "fst (cmaes_after (\<lambda>st k. (st, k)) (\<lambda>st smp. Suc st) j (s, ())) = s + j" for j s
    by (induction j arbitrary: s) simp_all
  note a = loops_run_configured_count_unless_stopped [where print_freq = 1 and num_loops = 3
        and train_fn = "\<lambda>ts es rb. ((Suc ts, es, rb), ())" and eval_policy = "\<lambda>ts e. (ts, ())"
        and select_fn = "\<lambda>k r ts rb. (Suc k, ts, rb)"
        and st = "\<lparr>keys = 0::nat, training_states = 0::nat, env_states = (),
          replay_buffers = (), population_returns = 0::nat, eval_env_first_states = (),
          trace = []\<rparr>"
        and scan_update = "\<lambda>c u. (Suc c, c)" and init = "0::nat" and num_iterations = 4
        and sample = "\<lambda>st k. (st, k)" and update = "\<lambda>st smp. Suc st"
        and stop_condition = "\<lambda>st. False" and mean_of = "\<lambda>st. st" and cov_of = "\<lambda>st. st"
        and cmaes_iterations = 4 and ?s0.0 = "0::nat" and ?key0.0 = "()" and j = 1]
  note b = loops_run_configured_count_unless_stopped [where print_freq = 1 and num_loops = 3
        and train_fn = "\<lambda>ts es rb. ((Suc ts, es, rb), ())" and eval_policy = "\<lambda>ts e. (ts, ())"
        and select_fn = "\<lambda>k r ts rb. (Suc k, ts, rb)"
        and st = "\<lparr>keys = 0::nat, training_states = 0::nat, env_states = (),
          replay_buffers = (), population_returns = 0::nat, eval_env_first_states = (),
          trace = []\<rparr>"
        and scan_update = "\<lambda>c u. (Suc c, c)" and init = "0::nat" and num_iterations = 4
        and sample = "\<lambda>st k. (st, k)" and update = "\<lambda>st smp. Suc st"
        and stop_condition = "\<lambda>st. 3 \<le> st" and mean_of = "\<lambda>st. st" and cov_of = "\<lambda>st. st"
        and cmaes_iterations = 1000 and ?s0.0 = "0::nat" and ?key0.0 = "()" and j = 3]
  have p: "\<exists>st'. pbt_loop 3 1
      (\<lambda>ts es rb. ((Suc ts, es, rb), ())) (\<lambda>ts e. (ts, ())) (\<lambda>k r ts rb. (Suc k, ts, rb))
      \<lparr>keys = 0::nat, training_states = 0::nat, env_states = (), replay_buffers = (),
       population_returns = 0::nat, eval_env_first_states = (), trace = []\<rparr> = Inr st' \<and>
      filter is_train (trace st') = [Train 0, Train 1, Train 2]"
    using a by (simp add: r)
  have s: "length (snd (scan_cell (\<lambda>c u. (Suc c, c)) (0::nat) 4)) = 4"
    using a by simp
  have n: "iteration_count
     (cmaes_cell (\<lambda>st k. (st, k)) (\<lambda>st smp. Suc st) (\<lambda>st. False) (\<lambda>st. st) (\<lambda>st. st)
        4 (0::nat) ()) = 4"
    using a by simp
  have e: "iteration_count
     (cmaes_cell (\<lambda>st k. (st, k)) (\<lambda>st smp. Suc st) (\<lambda>st. 3 \<le> st) (\<lambda>st. st) (\<lambda>st. st)
        1000 (0::nat) ()) = 3"
    using b by (simp add: after)
  show ?thesis using p s n e by simp
qed

section \<open>Properties of unsharding\<close>

lemma length_concat_rect:
  "list_all (\<lambda>row. length row = m) xs \<Longrightarrow> length (concat xs) = length xs * m"
  by (induction xs) simp_all

lemma nth_concat_rect:
  "list_all (\<lambda>row. length row = m) xs \<Longrightarrow> d < length xs \<Longrightarrow> j < m \<Longrightarrow>
   concat xs ! (d * m + j) = xs ! d ! j"
proof (induction xs arbitrary: d)
  case Nil
  then show ?case by simp
next
  case (Cons row xs)
  show ?case
  proof (cases d)
    case 0
    with Cons.prems show ?thesis by (simp add: nth_append)
  next
    case (Suc d')
    have "concat (row # xs) ! (d * m + j) = concat xs ! (d' * m + j)"
      using Cons.prems(1) Suc by (simp add: nth_append)
    also have "\<dots> = xs ! d' ! j"
      using Cons.prems Suc by (intro Cons.IH) simp_all
    finally show ?thesis using Suc by simp
  qed
qed

lemma set_leaves: "set (leaves t) = set_pytree t"
  by (induction t) auto

lemma leaves_map_pytree: "leaves (map_pytree f t) = map f (leaves t)"
  by (induction t) (simp_all add: map_concat comp_def cong: map_cong)

lemma first_index_found:
  "\<exists>x \<in> set xs. P x \<Longrightarrow>
   first_index P xs < length xs \<and> P (xs ! first_index P xs) \<and>
   (\<forall>i < first_index P xs. \<not> P (xs ! i))"
proof (induction xs)
  case Nil
  then show ?case by simp
next
  case (Cons x xs)
  show ?case
  proof (cases "P x")
    case True
    then show ?thesis by simp
  next
    case False
    with Cons.prems have "\<exists>x \<in> set xs. P x" by simp
    from Cons.IH [OF this] False show ?thesis
      by (auto simp: nth_Cons split: nat.splits)
  qed
qed

lemma argmax_first_maximum:
  assumes "xs \<noteq> []"
  shows "\<exists>k. argmax xs = Inr k \<and> k < length xs \<and> (\<forall>v \<in> set xs. v \<le> xs ! k) \<and>
           (\<forall>i < k. xs ! i < xs ! k)"
proof -
  obtain x ys where xs: "xs = x # ys" using assms by (cases xs) auto
  let ?m = "fold max ys x"
  have m: "?m = Max (set xs)" unfolding xs by (rule Max.set_eq_fold [symmetric])
  have "?m \<in> set xs" unfolding m using assms by (intro Max_in) simp_all
  then have "\<exists>v \<in> set xs. v = ?m" by simp
  from first_index_found [of xs "\<lambda>v. v = ?m", OF this]
  have k: "first_index (\<lambda>v. v = ?m) xs < length xs"
    "xs ! first_index (\<lambda>v. v = ?m) xs = ?m"
    "\<forall>i < first_index (\<lambda>v. v = ?m) xs. xs ! i \<noteq> ?m" by auto
  have le: "\<forall>v \<in> set xs. v \<le> ?m" unfolding m by simp
  have "\<forall>i < first_index (\<lambda>v. v = ?m) xs. xs ! i < ?m"
  proof (intro allI impI)
    fix i assume i: "i < first_index (\<lambda>v. v = ?m) xs"
    then have "xs ! i \<in> set xs" using k(1) by simp
    then have "xs ! i \<le> ?m" using le by blast
    moreover have "xs ! i \<noteq> ?m" using k(3) i by blast
    ultimately show "xs ! i < ?m" by simp
  qed
  moreover have "argmax xs = Inr (first_index (\<lambda>v. v = ?m) xs)"
    unfolding xs argmax_def by simp
  ultimately show ?thesis using k le by (auto simp: xs)
qed

lemma sharded_leaf:
  assumes "sharded nd ppd x"
  shows "length (concat x) = ppd * nd"
    and "d < nd \<Longrightarrow> j < ppd \<Longrightarrow> concat x ! (d * ppd + j) = x ! d ! j"
    and "k < ppd * nd \<Longrightarrow> concat x ! k = x ! (k div ppd) ! (k mod ppd)"
proof -
  have r: "list_all (\<lambda>row. length row = ppd) x" and l: "length x = nd"
    using assms by (simp_all add: sharded_def)
  show "length (concat x) = ppd * nd"
    using length_concat_rect [OF r] l by (simp add: mult.commute)
  show "concat x ! (d * ppd + j) = x ! d ! j" if "d < nd" "j < ppd"
    using nth_concat_rect [OF r, of d j] that l by simp
  show "concat x ! k = x ! (k div ppd) ! (k mod ppd)" if "k < ppd * nd"
  proof -
    have p: "0 < ppd" using that by (cases ppd) simp_all
    have d: "k div ppd < nd" using that p by (simp add: less_mult_imp_div_less mult.commute)
    have j: "k mod ppd < ppd" using p by simp
    have "concat x ! ((k div ppd) * ppd + k mod ppd) = x ! (k div ppd) ! (k mod ppd)"
      using nth_concat_rect [OF r, of "k div ppd" "k mod ppd"] d j l by simp
    then show ?thesis by simp
  qed
qed

text \<open>
  Claim C9. For a sharded tree whose leaves have the leading dimensions
  \<open>(num_devices, population_size_per_device)\<close>, \<open>unshard_fn\<close> with
  \<open>population_size = population_size_per_device * num_devices\<close> returns a tree of the same
  structure whose leaves have the leading dimension \<open>population_size\<close> and hold the same
  elements in device-major order: member \<open>j\<close> of device \<open>d\<close> is at the flat index
  \<open>d * population_size_per_device + j\<close>. Consequently the argmax \<open>k\<close> of the flattened
  returns is the index of a maximal return, it names the member in slot
  \<open>k mod population_size_per_device\<close> of device \<open>k div population_size_per_device\<close>, and the
  best training state is that member's entry of every leaf.
\<close>

theorem unshard_is_device_major:
  assumes "list_all (sharded num_devices population_size_per_device) (leaves sharded_tree)"
  shows "\<exists>tree. unshard_fn (int population_size_per_device * int num_devices) sharded_tree =
                  Inr tree \<and>
           leaves tree = map concat (leaves sharded_tree) \<and>
           (\<forall>x \<in> set (leaves sharded_tree).
              length (concat x) = population_size_per_device * num_devices \<and>
              (\<forall>d < num_devices. \<forall>j < population_size_per_device.
                 concat x ! (d * population_size_per_device + j) = x ! d ! j)) \<and>
           (sharded num_devices population_size_per_device pop_returns \<and>
            0 < num_devices \<and> 0 < population_size_per_device \<longrightarrow>
            (\<exists>k. argmax (concat pop_returns) = Inr k \<and>
               k < population_size_per_device * num_devices \<and>
               (\<forall>d < num_devices. \<forall>j < population_size_per_device.
                  pop_returns ! d ! j \<le>
                    pop_returns ! (k div population_size_per_device)
                                ! (k mod population_size_per_device)) \<and>
               (\<forall>x \<in> set (leaves sharded_tree).
                  concat x ! k = x ! (k div population_size_per_device)
                                   ! (k mod population_size_per_device)) \<and>
               best_training_state (int population_size_per_device * int num_devices)
                   sharded_tree pop_returns =
                 Inr (map_pytree (\<lambda>x. x ! (k div population_size_per_device)
                                        ! (k mod population_size_per_device)) sharded_tree)))"
proof -
  let ?nd = num_devices and ?ppd = population_size_per_device
  have leaf: "sharded ?nd ?ppd x" if "x \<in> set (leaves sharded_tree)" for x
    using assms that by (simp add: list_all_iff)
  have ok: "list_all (reshape_ok (int ?ppd * int ?nd)) (leaves sharded_tree)"
    unfolding list_all_iff reshape_ok_def
    using sharded_leaf(1) [OF leaf] by simp
  have u: "unshard_fn (int ?ppd * int ?nd) sharded_tree = Inr (map_pytree concat sharded_tree)"
    using ok by (simp add: unshard_fn_def)
  have order: "\<forall>x \<in> set (leaves sharded_tree).
              length (concat x) = ?ppd * ?nd \<and>
              (\<forall>d < ?nd. \<forall>j < ?ppd. concat x ! (d * ?ppd + j) = x ! d ! j)"
    using sharded_leaf(1,2) [OF leaf] by blast
  have best: "\<exists>k. argmax (concat pop_returns) = Inr k \<and> k < ?ppd * ?nd \<and>
               (\<forall>d < ?nd. \<forall>j < ?ppd.
                  pop_returns ! d ! j \<le> pop_returns ! (k div ?ppd) ! (k mod ?ppd)) \<and>
               (\<forall>x \<in> set (leaves sharded_tree).
                  concat x ! k = x ! (k div ?ppd) ! (k mod ?ppd)) \<and>
               best_training_state (int ?ppd * int ?nd) sharded_tree pop_returns =
                 Inr (map_pytree (\<lambda>x. x ! (k div ?ppd) ! (k mod ?ppd)) sharded_tree)"
    if r: "sharded ?nd ?ppd pop_returns" and pos: "0 < ?nd" "0 < ?ppd"
  proof -
    have len: "length (concat pop_returns) = ?ppd * ?nd" by (rule sharded_leaf(1) [OF r])
    have "0 < length (concat pop_returns)" unfolding len using pos by simp
    then have ne: "concat pop_returns \<noteq> []" by (rule length_greater_0_conv [THEN iffD1])
    from argmax_first_maximum [OF ne] obtain k where
      k: "argmax (concat pop_returns) = Inr k" "k < length (concat pop_returns)"
         "\<forall>v \<in> set (concat pop_returns). v \<le> concat pop_returns ! k" by blast
    have kl: "k < ?ppd * ?nd" using k(2) len by simp
    have at: "concat pop_returns ! k = pop_returns ! (k div ?ppd) ! (k mod ?ppd)"
      by (rule sharded_leaf(3) [OF r kl])
    have mx: "\<forall>d < ?nd. \<forall>j < ?ppd.
                pop_returns ! d ! j \<le> pop_returns ! (k div ?ppd) ! (k mod ?ppd)"
    proof (intro allI impI)
      fix d j assume dj: "d < ?nd" "j < ?ppd"
      have "d * ?ppd + j < length (concat pop_returns)"
      proof -
        have "d * ?ppd + j < (d + 1) * ?ppd" using dj(2) by simp
        also have "\<dots> \<le> ?nd * ?ppd" using dj(1) by (intro mult_le_mono1) simp
        finally show ?thesis using len by (simp add: mult.commute)
      qed
      then have "concat pop_returns ! (d * ?ppd + j) \<in> set (concat pop_returns)"
        by (rule nth_mem)
      then have "concat pop_returns ! (d * ?ppd + j) \<le> concat pop_returns ! k"
        using k(3) by blast
      then show "pop_returns ! d ! j \<le> pop_returns ! (k div ?ppd) ! (k mod ?ppd)"
        using sharded_leaf(2) [OF r dj] at by simp
    qed
    have same: "\<forall>x \<in> set (leaves sharded_tree).
                  concat x ! k = x ! (k div ?ppd) ! (k mod ?ppd)"
      using sharded_leaf(3) [OF leaf kl] by blast
    have "map_pytree (\<lambda>x. x ! min k (length x - 1)) (map_pytree concat sharded_tree) =
            map_pytree (\<lambda>x. x ! (k div ?ppd) ! (k mod ?ppd)) sharded_tree"
      unfolding pytree.map_comp
    proof (rule pytree.map_cong [OF refl])
      fix x assume "x \<in> set_pytree sharded_tree"
      then have x: "x \<in> set (leaves sharded_tree)" by (simp add: set_leaves)
      have "min k (length (concat x) - 1) = k"
        using sharded_leaf(1) [OF leaf [OF x]] kl by simp
      then show "((\<lambda>x. x ! min k (length x - 1)) \<circ> concat) x = x ! (k div ?ppd) ! (k mod ?ppd)"
        using same x by simp
    qed
    then have "best_training_state (int ?ppd * int ?nd) sharded_tree pop_returns =
                 Inr (map_pytree (\<lambda>x. x ! (k div ?ppd) ! (k mod ?ppd)) sharded_tree)"
      by (simp add: best_training_state_def u k(1))
    with k(1) kl mx same show ?thesis by blast
  qed
  show ?thesis using u order best by (simp add: leaves_map_pytree)
qed

text \<open>
  Two devices with three members each: the best return 7 is first reached at the flat
  index 3, that is device 1, slot 0.
\<close>

theorem unshard_is_device_major_witness:
  "list_all (sharded 2 3)
     (leaves (Node [Leaf [[10, 11, 12], [13, 14, 15]], Leaf [[20, 21, 22], [23, 24, 25::nat]]])) \<and>
   sharded 2 3 [[1, 5, 2], [7, 3, 7::int]] \<and>
   unshard_fn 6 (Node [Leaf [[10, 11, 12], [13, 14, 15]], Leaf [[20, 21, 22], [23, 24, 25::nat]]]) =
     Inr (Node [Leaf [10, 11, 12, 13, 14, 15], Leaf [20, 21, 22, 23, 24, 25]]) \<and>
   argmax (concat [[1, 5, 2], [7, 3, 7::int]]) = Inr 3 \<and>
   best_training_state 6
     (Node [Leaf [[10, 11, 12], [13, 14, 15]], Leaf [[20, 21, 22], [23, 24, 25::nat]]])
     [[1, 5, 2], [7, 3, 7::int]] = Inr (Node [Leaf 13, Leaf 23])"
proof -
  let ?T = "Node [Leaf [[10, 11, 12], [13, 14, 15]], Leaf [[20, 21, 22], [23, 24, 25::nat]]]"
  let ?R = "[[1, 5, 2], [7, 3, 7::int]]"
  have t: "list_all (sharded 2 3) (leaves ?T)" by (simp add: sharded_def)
  have r: "sharded 2 3 ?R" by (simp add: sharded_def)
  have a: "argmax (concat ?R) = Inr 3" by (simp add: argmax_def)
  from unshard_is_device_major [OF t, of ?R] r a
  obtain tree where u: "unshard_fn (int 3 * int 2) ?T = Inr tree"
      "leaves tree = map concat (leaves ?T)"
    and b: "best_training_state (int 3 * int 2) ?T ?R =
              Inr (map_pytree (\<lambda>x. x ! (3 div 3) ! (3 mod 3)) ?T)"
    by auto
  have "unshard_fn 6 ?T = Inr (Node [Leaf [10, 11, 12, 13, 14, 15], Leaf [20, 21, 22, 23, 24, 25]])"
    by (simp add: unshard_fn_def reshape_ok_def)
  moreover have "best_training_state 6 ?T ?R = Inr (Node [Leaf 13, Leaf 23])"
    using b by simp
  ultimately show ?thesis using t r a by simp
qed

section \<open>Properties of the PBT selector\<close>

lemma insort_key_keeps_order:
  fixes f :: "nat \<Rightarrow> real"
  assumes "sorted_wrt (\<lambda>i j. f i < f j \<or> (f i = f j \<and> i < j)) ys"
    and "\<forall>y \<in> set ys. x < y"
  shows "sorted_wrt (\<lambda>i j. f i < f j \<or> (f i = f j \<and> i < j)) (insort_key f x ys)"
  using assms
proof (induction ys)
  case Nil
  show ?case by simp
next
  case (Cons y ys)
  show ?case
  proof (cases "f x \<le> f y")
    case True
    have "f x < f z \<or> (f x = f z \<and> x < z)" if "z \<in> set (y # ys)" for z
    proof -
      have "f y \<le> f z" using Cons.prems(1) that by auto
      with True have "f x \<le> f z" by simp
      moreover have "x < z" using Cons.prems(2) that by blast
      ultimately show ?thesis by auto
    qed
    with True Cons.prems(1) show ?thesis by simp
  next
    case False
    have tail: "sorted_wrt (\<lambda>i j. f i < f j \<or> (f i = f j \<and> i < j)) (insort_key f x ys)"
      using Cons.IH Cons.prems by simp
    have "f y < f z \<or> (f y = f z \<and> y < z)" if "z \<in> set (insort_key f x ys)" for z
    proof -
      from that have "z = x \<or> z \<in> set ys" by (simp add: set_insort_key)
      then show ?thesis using False Cons.prems(1) by auto
    qed
    with False tail show ?thesis by simp
  qed
qed

lemma sort_key_keeps_order:
  fixes f :: "nat \<Rightarrow> real"
  assumes "sorted_wrt (<) xs"
  shows "sorted_wrt (\<lambda>i j. f i < f j \<or> (f i = f j \<and> i < j)) (sort_key f xs)"
  using assms
proof (induction xs)
  case Nil
  show ?case by simp
next
  case (Cons x xs)
  have "\<forall>y \<in> set (sort_key f xs). x < y" using Cons.prems by simp
  moreover have "sorted_wrt (\<lambda>i j. f i < f j \<or> (f i = f j \<and> i < j)) (sort_key f xs)"
    using Cons.IH Cons.prems by simp
  ultimately show ?case by (simp add: insort_key_keeps_order)
qed

lemma rank_sorted: "sorted_wrt (ranks_before rs) (rank rs)"
proof -
  have "sorted_wrt (<) [0..<length rs]" by (simp add: sorted_wrt_upt)
  from sort_key_keeps_order [OF this, of "\<lambda>i. - (rs ! i)"]
  have "sorted_wrt (\<lambda>i j. - (rs ! i) < - (rs ! j) \<or> (- (rs ! i) = - (rs ! j) \<and> i < j)) (rank rs)"
    by (simp add: rank_def)
  moreover have "(\<lambda>i j. - (rs ! i) < - (rs ! j) \<or> (- (rs ! i) = - (rs ! j) \<and> i < j)) = ranks_before rs"
    by (auto simp: ranks_before_def fun_eq_iff)
  ultimately show ?thesis by simp
qed

lemma rank_indices: "set (rank rs) = {0..<length rs}" "length (rank rs) = length rs"
  "distinct (rank rs)"
  by (simp_all add: rank_def)

lemma build_mapping_targets:
  "fst ` set (build_mapping split choice g bs ws) \<subseteq> set ws"
proof (induction ws arbitrary: g)
  case Nil
  show ?case by simp
next
  case (Cons w ws)
  obtain g' k where a: "split g = (g', k)" by (cases "split g")
  obtain k1 k2 where b: "split k = (k1, k2)" by (cases "split k")
  show ?case using Cons.IH [of g'] a b by (auto split: option.splits)
qed

lemma length_fold_replace:
  "length (fold (replace_member perturb ph population) mp acc) = length acc"
  by (induction mp arbitrary: acc) auto

lemma fold_replace_untouched:
  "i \<notin> fst ` set mp \<Longrightarrow> fold (replace_member perturb ph population) mp acc ! i = acc ! i"
  by (induction mp arbitrary: acc) auto

lemma draw_member: "bs \<noteq> [] \<Longrightarrow> \<exists>b \<in> set bs. draw choice g bs = Some b"
  by (simp add: draw_def)

lemma fold_replace_applied:
  assumes "distinct ws" "bs \<noteq> []" "\<forall>w \<in> set ws. w < length acc"
  shows "\<forall>w \<in> set ws. \<exists>b \<in> set bs. \<exists>k.
           fold (replace_member perturb ph population) (build_mapping split choice g bs ws) acc ! w =
             (if ph then perturb k (population ! b) else population ! b)"
  using assms
proof (induction ws arbitrary: g acc)
  case Nil
  show ?case by simp
next
  case (Cons w ws)
  obtain g' k where a: "split g = (g', k)" by (cases "split g")
  obtain k1 k2 where b: "split k = (k1, k2)" by (cases "split k")
  obtain src where s: "src \<in> set bs" "draw choice k1 bs = Some src"
    using draw_member [OF Cons.prems(2), of choice k1] by auto
  let ?acc = "acc[w := (if ph then perturb k2 (population ! src) else population ! src)]"
  have e: "fold (replace_member perturb ph population) (build_mapping split choice g bs (w # ws)) acc =
           fold (replace_member perturb ph population) (build_mapping split choice g' bs ws) ?acc"
    using a b s(2) by simp
  have "w \<notin> fst ` set (build_mapping split choice g' bs ws)"
    using build_mapping_targets [of split choice g' bs ws] Cons.prems(1) by auto
  then have "fold (replace_member perturb ph population) (build_mapping split choice g' bs ws) ?acc ! w
               = ?acc ! w"
    by (rule fold_replace_untouched)
  also have "\<dots> = (if ph then perturb k2 (population ! src) else population ! src)"
    using Cons.prems(3) by simp
  finally have head: "\<exists>b \<in> set bs. \<exists>k.
      fold (replace_member perturb ph population) (build_mapping split choice g bs (w # ws)) acc ! w =
        (if ph then perturb k (population ! b) else population ! b)"
    unfolding e using s(1) by (intro bexI [of _ src] exI [of _ k2]) simp_all
  have "\<forall>w' \<in> set ws. \<exists>b \<in> set bs. \<exists>k.
      fold (replace_member perturb ph population) (build_mapping split choice g' bs ws) ?acc ! w' =
        (if ph then perturb k (population ! b) else population ! b)"
    using Cons.prems by (intro Cons.IH) simp_all
  with head show ?case unfolding e by simp
qed

lemma selection_result:
  assumes "valid_input returns population spec" "check_config spec = None"
  shows "select_and_replace split choice perturb ph rng returns population spec =
           Inr (fst (split rng),
                fold (replace_member perturb ph population)
                  (build_mapping split choice (snd (split rng))
                     (best_indices (map value_of returns) (nat (num_best_to_replace_from spec)))
                     (worse_indices (map value_of returns) (nat (num_worse_to_replace spec))))
                  population)"
  using assms by (simp add: select_and_replace_def Let_def case_prod_beta)

lemma selection_succeeds_iff:
  "(\<exists>out. select_and_replace split choice perturb ph rng returns population spec = Inr out) \<longleftrightarrow>
     valid_input returns population spec \<and> check_config spec = None"
  by (auto simp: select_and_replace_def Let_def case_prod_beta split: option.splits)

lemma check_config_invariant: "check_config spec = None \<longleftrightarrow> replacement_invariant spec"
  by (auto simp: check_config_def replacement_invariant_def)

lemma check_config_error: "check_config spec = Some e \<Longrightarrow> e = InvalidConfig"
  by (simp add: check_config_def split: if_splits)

lemma worse_indices_facts:
  "distinct (worse_indices rs k)" "set (worse_indices rs k) \<subseteq> {0..<length rs}"
proof -
  show "distinct (worse_indices rs k)"
    by (simp add: worse_indices_def rank_indices(3))
  have "set (worse_indices rs k) \<subseteq> set (rank rs)"
    unfolding worse_indices_def by (rule set_drop_subset)
  then show "set (worse_indices rs k) \<subseteq> {0..<length rs}" by (simp add: rank_indices(1))
qed

text \<open>
  Claim C5. For every valid input (the input check passes and the configuration
  satisfies the invariant) the selection returns a new RNG state and a new population;
  the new population has the length of the input population, and every member whose
  index is not among the worse indices is the same value in the input and in the
  returned population. A member is one opaque value that holds its whole state
  (parameters, optimizer state, replay buffer, step counters), so equality of members is
  equality of all of it.
\<close>

theorem non_replaced_members_unchanged:
  assumes "valid_input returns population spec"
    and "replacement_invariant spec"
    and "i < length population"
    and "i \<notin> set (worse_indices (map value_of returns) (nat (num_worse_to_replace spec)))"
  shows "\<exists>new_rng_state new_population.
           select_and_replace split choice perturb perturb_hyperparameters rng_state returns
             population spec = Inr (new_rng_state, new_population) \<and>
           length new_population = length population \<and>
           new_population ! i = population ! i"
proof -
  let ?bs = "best_indices (map value_of returns) (nat (num_best_to_replace_from spec))"
  let ?ws = "worse_indices (map value_of returns) (nat (num_worse_to_replace spec))"
  let ?mp = "build_mapping split choice (snd (split rng_state)) ?bs ?ws"
  let ?new = "fold (replace_member perturb perturb_hyperparameters population) ?mp population"
  have ok: "check_config spec = None"
    using assms(2) by (simp add: check_config_invariant)
  have res: "select_and_replace split choice perturb perturb_hyperparameters rng_state returns
               population spec = Inr (fst (split rng_state), ?new)"
    by (rule selection_result [OF assms(1) ok])
  have "i \<notin> fst ` set ?mp"
    using build_mapping_targets [of split choice "snd (split rng_state)" ?bs ?ws] assms(4)
    by blast
  then have "?new ! i = population ! i"
    by (rule fold_replace_untouched)
  moreover have "length ?new = length population"
    by (rule length_fold_replace)
  ultimately show ?thesis using res by blast
qed

text \<open>
  Four members with the returns 10, 30, 5, 20, two sources and two replacements, with
  perturbation: the members 0 and 2 are overwritten, the member 1 is as it was.
\<close>

theorem non_replaced_members_unchanged_witness:
  "valid_input [Val 10, Val 30, Val 5, Val 20] [100, 200, 300, 400::nat]
     \<lparr>population_size = 4, num_best_to_replace_from = 2, num_worse_to_replace = 2\<rparr> \<and>
   replacement_invariant
     \<lparr>population_size = 4, num_best_to_replace_from = 2, num_worse_to_replace = 2\<rparr> \<and>
   (1::nat) < length [100, 200, 300, 400::nat] \<and>
   1 \<notin> set (worse_indices (map value_of [Val 10, Val 30, Val 5, Val 20]) (nat 2)) \<and>
   select_and_replace (\<lambda>g. (2 * g + 1, 2 * g + 2)) (\<lambda>g n. g div 4) (\<lambda>k m. m + k) True (0::nat)
     [Val 10, Val 30, Val 5, Val 20] [100, 200, 300, 400::nat]
     \<lparr>population_size = 4, num_best_to_replace_from = 2, num_worse_to_replace = 2\<rparr> =
     Inr (1, [414, 200, 226, 400]) \<and>
   [414, 200, 226, 400::nat] ! 1 = [100, 200, 300, 400] ! 1"
proof -
  let ?R = "[Val 10, Val 30, Val 5, Val 20]" and ?M = "[100, 200, 300, 400::nat]"
  let ?spec = "\<lparr>population_size = 4, num_best_to_replace_from = 2, num_worse_to_replace = 2\<rparr>"
  have r: "rank [10, 30, 5, 20] = [1, 3, 0, 2]" by (simp add: rank_def upt_rec)
  have w: "worse_indices (map value_of ?R) (nat 2) = [0, 2]"
    by (simp add: worse_indices_def r)
  have m: "Suc (Suc 0) = 2" by simp
  have s: "select_and_replace (\<lambda>g. (2 * g + 1, 2 * g + 2)) (\<lambda>g n. g div 4) (\<lambda>k m. m + k) True
     (0::nat) ?R ?M ?spec = Inr (1, [414, 200, 226, 400])"
    by (simp add: select_and_replace_def valid_input_def check_config_def
        best_indices_def worse_indices_def r draw_def m)
  have v: "valid_input ?R ?M ?spec" by (simp add: valid_input_def)
  have c: "replacement_invariant ?spec" by (simp add: replacement_invariant_def)
  have i: "(1::nat) < length ?M" by simp
  have n: "1 \<notin> set (worse_indices (map value_of ?R) (nat (num_worse_to_replace ?spec)))"
    using w by simp
  from non_replaced_members_unchanged [OF v c i n, of "\<lambda>g. (2 * g + 1, 2 * g + 2)"
      "\<lambda>g n. g div 4" "\<lambda>k m. m + k" True 0]
  have "[414, 200, 226, 400::nat] ! 1 = ?M ! 1" unfolding s by simp
  then show ?thesis using v c i w s by simp
qed

lemma ranking_unique:
  assumes "sorted_wrt (ranks_before rs) xs" "sorted_wrt (ranks_before rs) ys"
    and "distinct xs" "distinct ys" "set xs = set ys"
  shows "xs = ys"
  using assms
proof (induction xs arbitrary: ys)
  case Nil
  then show ?case by simp
next
  case (Cons x xs)
  then obtain y ys' where ys: "ys = y # ys'" by (cases ys) auto
  have asym: "\<not> (ranks_before rs a b \<and> ranks_before rs b a)" for a b
    by (auto simp: ranks_before_def)
  have "x = y"
  proof (rule ccontr)
    assume ne: "x \<noteq> y"
    have "x \<in> set ys'" using Cons.prems(5) ne ys by auto
    then have 1: "ranks_before rs y x" using Cons.prems(2) ys by simp
    have "y \<in> set xs" using Cons.prems(5) ne ys by auto
    then have 2: "ranks_before rs x y" using Cons.prems(1) by simp
    from 1 2 asym show False by blast
  qed
  moreover have "xs = ys'"
  proof (rule Cons.IH)
    show "sorted_wrt (ranks_before rs) xs" using Cons.prems(1) by simp
    show "sorted_wrt (ranks_before rs) ys'" using Cons.prems(2) ys by simp
    show "distinct xs" using Cons.prems(3) by simp
    show "distinct ys'" using Cons.prems(4) ys by simp
    show "set xs = set ys'" using Cons.prems(3,4,5) ys \<open>x = y\<close> by auto
  qed
  ultimately show ?case using ys by simp
qed

text \<open>
  Claim C7 as stated fails in its example with ties: for the returns 10, 10, 5, 5 the
  ranking is 0, 1, 2, 3, so the bottom of the ranking, the worst index for
  \<open>K_worse = 1\<close>, is 3 and not 2.
\<close>

theorem tied_worst_is_higher_index_counterexample:
  "best_indices [10, 10, 5, 5] 1 = [0] \<and> worse_indices [10, 10, 5, 5] 1 = [3] \<and>
   2 \<notin> set (worse_indices [10, 10, 5, 5] 1)"
proof -
  have r: "rank [10, 10, 5, 5] = [0, 1, 2, 3]" by (simp add: rank_def upt_rec)
  show ?thesis by (simp add: best_indices_def worse_indices_def r)
qed

text \<open>
  Claim C7, amended. The ranking lists every index once, a member with a higher return
  before one with a lower return and, among equal returns, the lower index first; it is
  the only arrangement of the indices in this order. For the
  returns 10, 10, 5, 5 with \<open>K_best = 1\<close> and \<open>K_worse = 1\<close> the best index is 0 and the worst
  index is 3; for the returns 10, 30, 5, 20 with \<open>K_best = 1\<close> and \<open>K_worse = 1\<close> the best
  index is 1, the worst index is 2, and the new population has a copy of member 1 in slot
  2 (perturbed when \<open>perturb_hyperparameters\<close> is set) and the members 0, 1 and 3 unchanged.
\<close>

theorem ranking_descending_stable:
  "(\<forall>p q. p < q \<and> q < length rs \<longrightarrow> ranks_before rs (rank rs ! p) (rank rs ! q)) \<and>
   set (rank rs) = {0..<length rs} \<and> length (rank rs) = length rs \<and>
   (\<forall>r. distinct r \<and> set r = {0..<length rs} \<and> sorted_wrt (ranks_before rs) r \<longrightarrow>
        r = rank rs) \<and>
   best_indices [10, 10, 5, 5] 1 = [0] \<and> worse_indices [10, 10, 5, 5] 1 = [3] \<and>
   best_indices [10, 30, 5, 20] 1 = [1] \<and> worse_indices [10, 30, 5, 20] 1 = [2] \<and>
   select_and_replace split choice perturb perturb_hyperparameters rng_state
     [Val 10, Val 30, Val 5, Val 20] [m0, m1, m2, m3]
     \<lparr>population_size = 4, num_best_to_replace_from = 1, num_worse_to_replace = 1\<rparr> =
     Inr (fst (split rng_state),
          [m0, m1,
           if perturb_hyperparameters
           then perturb (snd (split (snd (split (snd (split rng_state)))))) m1 else m1,
           m3])"
proof -
  have r1: "rank [10, 10, 5, 5] = [0, 1, 2, 3]" by (simp add: rank_def upt_rec)
  have r2: "rank [10, 30, 5, 20] = [1, 3, 0, 2]" by (simp add: rank_def upt_rec)
  have ord: "\<forall>p q. p < q \<and> q < length rs \<longrightarrow> ranks_before rs (rank rs ! p) (rank rs ! q)"
    using rank_sorted [of rs] by (simp add: sorted_wrt_iff_nth_less rank_indices(2))
  have ex1: "best_indices [10, 10, 5, 5] 1 = [0]" "worse_indices [10, 10, 5, 5] 1 = [3]"
    by (simp_all add: best_indices_def worse_indices_def r1)
  have ex2: "best_indices [10, 30, 5, 20] 1 = [1]" "worse_indices [10, 30, 5, 20] 1 = [2]"
    by (simp_all add: best_indices_def worse_indices_def r2)
  have sel: "select_and_replace split choice perturb perturb_hyperparameters rng_state
     [Val 10, Val 30, Val 5, Val 20] [m0, m1, m2, m3]
     \<lparr>population_size = 4, num_best_to_replace_from = 1, num_worse_to_replace = 1\<rparr> =
     Inr (fst (split rng_state),
          [m0, m1,
           if perturb_hyperparameters
           then perturb (snd (split (snd (split (snd (split rng_state)))))) m1 else m1,
           m3])"
    by (simp add: select_and_replace_def valid_input_def check_config_def
        best_indices_def worse_indices_def r2 draw_def case_prod_beta)
  have uniq: "\<forall>r. distinct r \<and> set r = {0..<length rs} \<and> sorted_wrt (ranks_before rs) r \<longrightarrow>
        r = rank rs"
    using ranking_unique [OF _ rank_sorted _ rank_indices(3)] by (simp add: rank_indices(1))
  show ?thesis using ord uniq ex1 ex2 sel by (simp add: rank_indices)
qed

text \<open>
  The indices 0, 1, 2, 3 are in ranking order for the returns 10, 10, 5, 5, so they are
  the ranking; its positions 2 and 3 hold the indices 2 and 3, a tie in which the lower
  index comes first.
\<close>

theorem ranking_descending_stable_witness:
  "(2::nat) < 3 \<and> 3 < length [10, 10, 5, 5::real] \<and>
   rank [10, 10, 5, 5] ! 2 = 2 \<and> rank [10, 10, 5, 5] ! 3 = 3 \<and>
   ranks_before [10, 10, 5, 5] 2 3 \<and>
   distinct [0, 1, 2, 3::nat] \<and> set [0, 1, 2, 3] = {0..<length [10, 10, 5, 5::real]} \<and>
   sorted_wrt (ranks_before [10, 10, 5, 5]) [0, 1, 2, 3] \<and>
   rank [10, 10, 5, 5] = [0, 1, 2, 3]"
proof -
  note fact = ranking_descending_stable [of "[10, 10, 5, 5]"]
  have d: "distinct [0, 1, 2, 3::nat]" by simp
  have s: "set [0, 1, 2, 3] = {0..<length [10, 10, 5, 5::real]}" by auto
  have o: "sorted_wrt (ranks_before [10, 10, 5, 5]) [0, 1, 2, 3]"
    by (simp add: ranks_before_def)
  have "\<forall>r. distinct r \<and> set r = {0..<length [10, 10, 5, 5::real]} \<and>
          sorted_wrt (ranks_before [10, 10, 5, 5]) r \<longrightarrow> r = rank [10, 10, 5, 5]"
    by (rule fact [THEN conjunct2, THEN conjunct2, THEN conjunct2, THEN conjunct1])
  from this [rule_format, of "[0, 1, 2, 3]"] d s o
  have r: "rank [10, 10, 5, 5] = [0, 1, 2, 3]" by simp
  have "\<forall>p q. p < q \<and> q < length [10, 10, 5, 5::real] \<longrightarrow>
          ranks_before [10, 10, 5, 5] (rank [10, 10, 5, 5] ! p) (rank [10, 10, 5, 5] ! q)"
    by (rule fact [THEN conjunct1])
  from this [rule_format, of 2 3]
  have "ranks_before [10, 10, 5, 5] (rank [10, 10, 5, 5] ! 2) (rank [10, 10, 5, 5] ! 3)"
    by simp
  then show ?thesis using d s o r by simp
qed

text \<open>
  Claim C8. The selection either rejects or succeeds as a whole. It returns
  \<open>InvalidInput\<close> exactly when the input check fails, \<open>InvalidConfig\<close> exactly when the
  input is valid and the configuration breaks the invariant, and no other error; in both
  cases the result is the error alone, with no population. It returns a population
  exactly when input and configuration are valid (counts are never clamped), and then
  the population has the length of the input and, when there is a best member to copy
  from, every worse index holds a copy of a best member of the input population
  (perturbed when \<open>perturb_hyperparameters\<close> is set).
\<close>

theorem selection_all_or_nothing:
  "(select_and_replace split choice perturb perturb_hyperparameters rng_state returns
      population spec = Inl InvalidInput \<longleftrightarrow> \<not> valid_input returns population spec) \<and>
   (select_and_replace split choice perturb perturb_hyperparameters rng_state returns
      population spec = Inl InvalidConfig \<longleftrightarrow>
        valid_input returns population spec \<and> \<not> replacement_invariant spec) \<and>
   (\<forall>e. select_and_replace split choice perturb perturb_hyperparameters rng_state returns
          population spec = Inl e \<longrightarrow> e = InvalidInput \<or> e = InvalidConfig) \<and>
   ((\<exists>out. select_and_replace split choice perturb perturb_hyperparameters rng_state returns
             population spec = Inr out) \<longleftrightarrow>
        valid_input returns population spec \<and> replacement_invariant spec) \<and>
   (\<forall>new_rng_state new_population.
      select_and_replace split choice perturb perturb_hyperparameters rng_state returns
        population spec = Inr (new_rng_state, new_population) \<longrightarrow>
      length new_population = length population \<and>
      (0 < num_best_to_replace_from spec \<longrightarrow>
       (\<forall>w \<in> set (worse_indices (map value_of returns) (nat (num_worse_to_replace spec))).
          \<exists>b \<in> set (best_indices (map value_of returns) (nat (num_best_to_replace_from spec))).
          \<exists>k. new_population ! w =
                 (if perturb_hyperparameters then perturb k (population ! b)
                  else population ! b))))"
proof -
  let ?sel = "select_and_replace split choice perturb perturb_hyperparameters rng_state returns
      population spec"
  let ?rs = "map value_of returns"
  let ?bs = "best_indices ?rs (nat (num_best_to_replace_from spec))"
  let ?ws = "worse_indices ?rs (nat (num_worse_to_replace spec))"
  have a: "?sel = Inl InvalidInput \<longleftrightarrow> \<not> valid_input returns population spec"
    by (auto simp: select_and_replace_def Let_def case_prod_beta check_config_def
        split: option.splits if_splits)
  have b: "?sel = Inl InvalidConfig \<longleftrightarrow>
             valid_input returns population spec \<and> \<not> replacement_invariant spec"
    unfolding check_config_invariant [symmetric]
    by (auto simp: select_and_replace_def Let_def case_prod_beta check_config_def
        split: option.splits if_splits)
  have c: "\<forall>e. ?sel = Inl e \<longrightarrow> e = InvalidInput \<or> e = InvalidConfig"
    by (auto simp: select_and_replace_def Let_def case_prod_beta check_config_def
        split: option.splits if_splits)
  have d: "(\<exists>out. ?sel = Inr out) \<longleftrightarrow>
             valid_input returns population spec \<and> replacement_invariant spec"
    unfolding check_config_invariant [symmetric] by (rule selection_succeeds_iff)
  have e: "length new_population = length population \<and>
      (0 < num_best_to_replace_from spec \<longrightarrow>
       (\<forall>w \<in> set ?ws. \<exists>b \<in> set ?bs. \<exists>k. new_population ! w =
                 (if perturb_hyperparameters then perturb k (population ! b)
                  else population ! b)))"
    if s: "?sel = Inr (new_rng_state, new_population)" for new_rng_state new_population
  proof -
    let ?mp = "build_mapping split choice (snd (split rng_state)) ?bs ?ws"
    have ok: "valid_input returns population spec" "check_config spec = None"
      using selection_succeeds_iff [of split choice perturb perturb_hyperparameters rng_state
          returns population spec] s by simp_all
    have new: "new_population =
        fold (replace_member perturb perturb_hyperparameters population) ?mp population"
      using selection_result [OF ok, of split choice perturb perturb_hyperparameters rng_state]
        s by simp
    have len: "length new_population = length population"
      unfolding new by (rule length_fold_replace)
    have all: "\<forall>w \<in> set ?ws. \<exists>b \<in> set ?bs. \<exists>k. new_population ! w =
                 (if perturb_hyperparameters then perturb k (population ! b)
                  else population ! b)"
      if pos: "0 < num_best_to_replace_from spec"
    proof -
      have n: "length ?rs = length population" "int (length population) = population_size spec"
        using ok(1) by (simp_all add: valid_input_def)
      have "num_best_to_replace_from spec \<le> population_size spec"
        using ok(2) by (simp add: check_config_invariant replacement_invariant_def)
      with pos n have "0 < int (length population)" by linarith
      then have "0 < length (rank ?rs)" using n(1) by (simp add: rank_indices(2))
      then have ne: "?bs \<noteq> []"
        using pos unfolding best_indices_def by (cases "rank ?rs") auto
      have rng: "\<forall>w \<in> set ?ws. w < length population"
        using worse_indices_facts(2) [of ?rs "nat (num_worse_to_replace spec)"] n(1) by auto
      show ?thesis
        unfolding new
        by (rule fold_replace_applied [OF worse_indices_facts(1) ne rng])
    qed
    show ?thesis using len all by blast
  qed
  show ?thesis using a b c d e by blast
qed

text \<open>
  A NaN among the returns is rejected as \<open>InvalidInput\<close>; the counts 3 and 2 for four
  members are rejected as \<open>InvalidConfig\<close>; the counts 1 and 2 succeed and both worse
  members 0 and 2 become copies of member 1.
\<close>

theorem selection_all_or_nothing_witness:
  "\<not> valid_input [Val 1, NaN] [100, 200::nat]
       \<lparr>population_size = 2, num_best_to_replace_from = 1, num_worse_to_replace = 1\<rparr> \<and>
   select_and_replace (\<lambda>g. (2 * g + 1, 2 * g + 2)) (\<lambda>g n. g div 4) (\<lambda>k m. m + k) False (0::nat)
     [Val 1, NaN] [100, 200::nat]
     \<lparr>population_size = 2, num_best_to_replace_from = 1, num_worse_to_replace = 1\<rparr> =
     Inl InvalidInput \<and>
   valid_input [Val 10, Val 30, Val 5, Val 20] [100, 200, 300, 400::nat]
       \<lparr>population_size = 4, num_best_to_replace_from = 3, num_worse_to_replace = 2\<rparr> \<and>
   \<not> replacement_invariant
       \<lparr>population_size = 4, num_best_to_replace_from = 3, num_worse_to_replace = 2\<rparr> \<and>
   select_and_replace (\<lambda>g. (2 * g + 1, 2 * g + 2)) (\<lambda>g n. g div 4) (\<lambda>k m. m + k) False (0::nat)
     [Val 10, Val 30, Val 5, Val 20] [100, 200, 300, 400::nat]
     \<lparr>population_size = 4, num_best_to_replace_from = 3, num_worse_to_replace = 2\<rparr> =
     Inl InvalidConfig \<and>
   select_and_replace (\<lambda>g. (2 * g + 1, 2 * g + 2)) (\<lambda>g n. g div 4) (\<lambda>k m. m + k) False (0::nat)
     [Val 10, Val 30, Val 5, Val 20] [100, 200, 300, 400::nat]
     \<lparr>population_size = 4, num_best_to_replace_from = 1, num_worse_to_replace = 2\<rparr> =
     Inr (1, [200, 200, 200, 400]) \<and>
   worse_indices (map value_of [Val 10, Val 30, Val 5, Val 20]) (nat 2) = [0, 2] \<and>
   best_indices (map value_of [Val 10, Val 30, Val 5, Val 20]) (nat 1) = [1]"
proof -
  let ?S = "\<lambda>g::nat. (2 * g + 1, 2 * g + 2)" and ?C = "\<lambda>(g::nat) n::nat. g div 4"
    and ?P = "\<lambda>(k::nat) m::nat. m + k"
  let ?R = "[Val 10, Val 30, Val 5, Val 20]" and ?M = "[100, 200, 300, 400::nat]"
  have r: "rank [10, 30, 5, 20] = [1, 3, 0, 2]" by (simp add: rank_def upt_rec)
  have i: "\<not> valid_input [Val 1, NaN] [100, 200::nat]
       \<lparr>population_size = 2, num_best_to_replace_from = 1, num_worse_to_replace = 1\<rparr>"
    by (simp add: valid_input_def)
  have v: "valid_input ?R ?M
       \<lparr>population_size = 4, num_best_to_replace_from = 3, num_worse_to_replace = 2\<rparr>"
    by (simp add: valid_input_def)
  have c: "\<not> replacement_invariant
       \<lparr>population_size = 4, num_best_to_replace_from = 3, num_worse_to_replace = 2\<rparr>"
    by (simp add: replacement_invariant_def)
  have w: "worse_indices (map value_of ?R) (nat 2) = [0, 2]"
    "best_indices (map value_of ?R) (nat 1) = [1]"
    by (simp_all add: worse_indices_def best_indices_def r)
  have s: "select_and_replace ?S ?C ?P False 0 ?R ?M
     \<lparr>population_size = 4, num_best_to_replace_from = 1, num_worse_to_replace = 2\<rparr> =
     Inr (1, [200, 200, 200, 400])"
    by (simp add: select_and_replace_def valid_input_def check_config_def
        best_indices_def worse_indices_def r draw_def)
  have "select_and_replace ?S ?C ?P False 0 [Val 1, NaN] [100, 200::nat]
     \<lparr>population_size = 2, num_best_to_replace_from = 1, num_worse_to_replace = 1\<rparr> =
     Inl InvalidInput"
    using selection_all_or_nothing [of ?S ?C ?P False 0 "[Val 1, NaN]" "[100, 200]"
        "\<lparr>population_size = 2, num_best_to_replace_from = 1, num_worse_to_replace = 1\<rparr>"] i
    by blast
  moreover have "select_and_replace ?S ?C ?P False 0 ?R ?M
     \<lparr>population_size = 4, num_best_to_replace_from = 3, num_worse_to_replace = 2\<rparr> =
     Inl InvalidConfig"
    using selection_all_or_nothing [of ?S ?C ?P False 0 ?R ?M
        "\<lparr>population_size = 4, num_best_to_replace_from = 3, num_worse_to_replace = 2\<rparr>"] v c
    by blast
  ultimately show ?thesis using i v c w s by simp
qed

lemma rank_is_ranking: "is_ranking rs (rank rs)"
  by (simp add: is_ranking_def rank_indices rank_sorted)

lemma is_ranking_unique: "is_ranking rs r \<Longrightarrow> r = rank rs"
  unfolding is_ranking_def
  using ranking_unique [OF _ rank_sorted _ rank_indices(3), of rs r]
  by (simp add: rank_indices(1))

lemma selection_outcome_iff:
  "selection_outcome split choice perturb perturb_hyperparameters rng_state returns
     population spec out \<longleftrightarrow>
   out = select_and_replace split choice perturb perturb_hyperparameters rng_state returns
           population spec"
proof
  assume "selection_outcome split choice perturb perturb_hyperparameters rng_state returns
     population spec out"
  then show "out = select_and_replace split choice perturb perturb_hyperparameters rng_state
     returns population spec"
  proof cases
    case rejects_input
    then show ?thesis by (simp add: select_and_replace_def)
  next
    case (rejects_config e)
    then show ?thesis by (simp add: select_and_replace_def)
  next
    case (selects r new_rng_state k)
    have r: "r = rank (map value_of returns)" using selects(4) by (rule is_ranking_unique)
    show ?thesis
      using selects(1,2,3,5)
      by (simp add: select_and_replace_def Let_def best_indices_def worse_indices_def r)
  qed
next
  assume out: "out = select_and_replace split choice perturb perturb_hyperparameters rng_state
     returns population spec"
  show "selection_outcome split choice perturb perturb_hyperparameters rng_state returns
     population spec out"
  proof (cases "valid_input returns population spec")
    case False
    then show ?thesis unfolding out
      by (simp add: select_and_replace_def selection_outcome.rejects_input)
  next
    case True
    show ?thesis
    proof (cases "check_config spec")
      case (Some e)
      with True show ?thesis unfolding out
        by (simp add: select_and_replace_def selection_outcome.rejects_config)
    next
      case None
      obtain g k where s: "split rng_state = (g, k)" by (cases "split rng_state")
      have "selection_outcome split choice perturb perturb_hyperparameters rng_state returns
          population spec
          (Inr (g, fold (replace_member perturb perturb_hyperparameters population)
                     (build_mapping split choice k
                        (take (nat (num_best_to_replace_from spec)) (rank (map value_of returns)))
                        (drop (length returns - nat (num_worse_to_replace spec))
                           (rank (map value_of returns))))
                     population))"
        using True None rank_is_ranking [of "map value_of returns"] s
        by (rule selection_outcome.selects)
      then show ?thesis unfolding out
        using True None s
        by (simp add: select_and_replace_def Let_def best_indices_def worse_indices_def)
    qed
  qed
qed

text \<open>
  Claim C6. The selection is deterministic: any two outcomes that the steps of the
  selector allow for the same RNG state, returns, population and configuration are the
  same outcome, error or new RNG state and new population alike. The arguments of the
  contract are all an outcome depends on; the one choice the steps could leave open, the
  order of members with equal returns, is fixed by the tie-break, and the draws are
  functions of the RNG state.
\<close>

theorem selection_deterministic:
  assumes "selection_outcome split choice perturb perturb_hyperparameters rng_state returns
             population spec out1"
    and "selection_outcome split choice perturb perturb_hyperparameters rng_state returns
             population spec out2"
  shows "out1 = out2"
proof -
  let ?sel = "select_and_replace split choice perturb perturb_hyperparameters rng_state
                  returns population spec"
  have "out1 = ?sel" using assms(1) by (simp only: selection_outcome_iff)
  moreover have "out2 = ?sel" using assms(2) by (simp only: selection_outcome_iff)
  ultimately show ?thesis by simp
qed

text \<open>
  For the returns 10, 30, 5, 20 the arrangement 1, 3, 0, 2 is a ranking; the outcome built
  on it and the value the selector computes are both outcomes of the same call, and they
  are equal.
\<close>

theorem selection_deterministic_witness:
  "selection_outcome (\<lambda>g. (2 * g + 1, 2 * g + 2)) (\<lambda>g n. g div 4) (\<lambda>k m. m + k) False (0::nat)
     [Val 10, Val 30, Val 5, Val 20] [100, 200, 300, 400::nat]
     \<lparr>population_size = 4, num_best_to_replace_from = 1, num_worse_to_replace = 2\<rparr>
     (Inr (1, [200, 200, 200, 400])) \<and>
   selection_outcome (\<lambda>g. (2 * g + 1, 2 * g + 2)) (\<lambda>g n. g div 4) (\<lambda>k m. m + k) False (0::nat)
     [Val 10, Val 30, Val 5, Val 20] [100, 200, 300, 400::nat]
     \<lparr>population_size = 4, num_best_to_replace_from = 1, num_worse_to_replace = 2\<rparr>
     (select_and_replace (\<lambda>g. (2 * g + 1, 2 * g + 2)) (\<lambda>g n. g div 4) (\<lambda>k m. m + k) False 0
        [Val 10, Val 30, Val 5, Val 20] [100, 200, 300, 400]
        \<lparr>population_size = 4, num_best_to_replace_from = 1, num_worse_to_replace = 2\<rparr>) \<and>
   select_and_replace (\<lambda>g. (2 * g + 1, 2 * g + 2)) (\<lambda>g n. g div 4) (\<lambda>k m. m + k) False (0::nat)
     [Val 10, Val 30, Val 5, Val 20] [100, 200, 300, 400::nat]
     \<lparr>population_size = 4, num_best_to_replace_from = 1, num_worse_to_replace = 2\<rparr> =
     Inr (1, [200, 200, 200, 400])"
proof -
  let ?S = "\<lambda>g::nat. (2 * g + 1, 2 * g + 2)" and ?C = "\<lambda>(g::nat) n::nat. g div 4"
    and ?P = "\<lambda>(k::nat) m::nat. m + k"
  let ?R = "[Val 10, Val 30, Val 5, Val 20]" and ?M = "[100, 200, 300, 400::nat]"
  let ?spec = "\<lparr>population_size = 4, num_best_to_replace_from = 1, num_worse_to_replace = 2\<rparr>"
  have v: "valid_input ?R ?M ?spec" by (simp add: valid_input_def)
  have c: "check_config ?spec = None" by (simp add: check_config_def)
  have "set [1, 3, 0, 2::nat] = {0..<length (map value_of ?R)}" by auto
  then have k: "is_ranking (map value_of ?R) [1, 3, 0, 2]"
    unfolding is_ranking_def by (simp add: ranks_before_def)
  have s: "?S 0 = (1, 2)" by simp
  have "selection_outcome ?S ?C ?P False 0 ?R ?M ?spec
          (Inr (1, fold (replace_member ?P False ?M)
                     (build_mapping ?S ?C 2
                        (take (nat (num_best_to_replace_from ?spec)) [1, 3, 0, 2])
                        (drop (length ?R - nat (num_worse_to_replace ?spec)) [1, 3, 0, 2]))
                     ?M))"
    using v c k s by (rule selection_outcome.selects)
  then have a: "selection_outcome ?S ?C ?P False 0 ?R ?M ?spec (Inr (1, [200, 200, 200, 400]))"
    by (simp add: draw_def)
  have b: "selection_outcome ?S ?C ?P False 0 ?R ?M ?spec
             (select_and_replace ?S ?C ?P False 0 ?R ?M ?spec)"
    by (simp add: selection_outcome_iff)
  from selection_deterministic [OF a b] a b show ?thesis by simp
qed

end
